theory Spec2Isabelle
  imports Main
begin

section \<open>JavaScript strings and plain objects\<close>

text \<open>
  \<^verbatim>\<open>s.startsWith(p)\<close> and \<^verbatim>\<open>s.includes(sub)\<close> of JavaScript, on strings as character lists.
  Both are case-sensitive and compare code units one by one.
\<close>

fun startsWith :: "string \<Rightarrow> string \<Rightarrow> bool" where
  "startsWith s [] = True"
| "startsWith [] (p # ps) = False"
| "startsWith (c # cs) (p # ps) = (c = p \<and> startsWith cs ps)"

fun str_includes :: "string \<Rightarrow> string \<Rightarrow> bool" where
  "str_includes [] sub = startsWith [] sub"
| "str_includes (c # cs) sub = (startsWith (c # cs) sub \<or> str_includes cs sub)"

text \<open>
  The three lookup tables of \<^verbatim>\<open>evaluator.ts\<close> are object literals read with \<^verbatim>\<open>table[key]\<close>.
  Such a read finds the literal's own entries and, for a key that is not an own entry, the
  properties every plain object inherits from \<^verbatim>\<open>Object.prototype\<close>: functions, and for
  \<^verbatim>\<open>__proto__\<close> the prototype object itself. All of them are truthy and none is a string,
  a number or an array. Any other key reads as \<^verbatim>\<open>undefined\<close>.
\<close>

definition object_prototype_keys :: "string list" where
  "object_prototype_keys =
     [''constructor'', ''__defineGetter__'', ''__defineSetter__'', ''hasOwnProperty'',
      ''__lookupGetter__'', ''__lookupSetter__'', ''isPrototypeOf'', ''propertyIsEnumerable'',
      ''toString'', ''valueOf'', ''__proto__'', ''toLocaleString'']"

datatype 'a js_prop = Own 'a | Inherited string | Undefined

definition js_get :: "(string \<times> 'a) list \<Rightarrow> string \<Rightarrow> 'a js_prop" where
  "js_get obj k =
     (case map_of obj k of
        Some v \<Rightarrow> Own v
      | None \<Rightarrow> if k \<in> set object_prototype_keys then Inherited k else Undefined)"

text \<open>
  What a template literal prints for a looked-up value: the string itself, and for an
  inherited property the text of a built-in function (\<^verbatim>\<open>constructor\<close> is the function
  \<^verbatim>\<open>Object\<close>) or of the prototype object.
\<close>

definition js_to_string :: "string js_prop \<Rightarrow> string" where
  "js_to_string v =
     (case v of
        Own s \<Rightarrow> s
      | Inherited k \<Rightarrow>
          if k = ''__proto__'' then ''[object Object]''
          else ''function '' @ (if k = ''constructor'' then ''Object'' else k) @ ''() { [native code] }''
      | Undefined \<Rightarrow> ''null'')"

section \<open>Data model of the evaluator\<close>

text \<open>
  The interfaces of \<^verbatim>\<open>evaluator.ts\<close>; an optional field is an \<open>option\<close>. Of the
  metadata the evaluator reads the entry \<^verbatim>\<open>classification\<close> only, and the values are
  strings here.
\<close>

record EvaluationContext =
  userId :: string
  action :: string
  resourceType :: string
  resourceId :: "string option"
  metadata :: "(string \<times> string) list option"

record EvaluationResult =
  allowed :: bool
  reason :: string
  policy :: "string option"
  attributesChecked :: "string list option"

text \<open>A row of the catalog \<^verbatim>\<open>abac_attributes\<close>, the interface \<^verbatim>\<open>UserAttribute\<close>.\<close>

record UserAttribute =
  attr_id :: string
  name :: string
  category :: string
  level :: int
  description :: "string option"

text \<open>The row \<^verbatim>\<open>logDecision\<close> inserts into \<^verbatim>\<open>policy_enforcement_log\<close>.\<close>

record Decision =
  log_user_id :: string
  log_policy_id :: "string option"
  log_action :: string
  log_resource_type :: string
  log_resource_id :: "string option"
  log_result :: string
  log_reason :: string
  log_metadata :: "(string \<times> string) list option"

section \<open>The store\<close>

text \<open>
  The tables the evaluator and the trigger read: the attribute catalog, the grants
  (\<^verbatim>\<open>user_attributes\<close>, with an optional expiry) and the roles of \<^verbatim>\<open>users_profile\<close>.
\<close>

record user_attributes_row =
  ua_user_id :: string
  ua_attribute_id :: string
  ua_expires_at :: "int option"

record database =
  abac_attributes :: "UserAttribute list"
  user_attributes :: "user_attributes_row list"
  users_profile :: "(string \<times> string) list"

text \<open>
  An awaited request either rejects (the \<^verbatim>\<open>await\<close> throws) or resolves to an object
  with the fields \<^verbatim>\<open>data\<close> and \<^verbatim>\<open>error\<close>, each possibly null.
\<close>

datatype 'a response = Rejected | Response "'a option" "string option"

record supabase =
  select_user_attributes :: "string \<Rightarrow> UserAttribute option list response"
  select_clearance_names :: "string \<Rightarrow> string list response"
  insert_policy_enforcement_log :: "Decision \<Rightarrow> unit response"

datatype store_mode = Healthy | ReturnsError | Throws

definition respond :: "store_mode \<Rightarrow> 'a \<Rightarrow> 'a response" where
  "respond m rows =
     (case m of
        Healthy \<Rightarrow> Response (Some rows) None
      | ReturnsError \<Rightarrow> Response None (Some ''store error'')
      | Throws \<Rightarrow> Rejected)"

text \<open>The filter \<^verbatim>\<open>expires_at.is.null,expires_at.gt.now()\<close>: a grant is active.\<close>

definition is_active :: "int \<Rightarrow> user_attributes_row \<Rightarrow> bool" where
  "is_active now r = (case ua_expires_at r of None \<Rightarrow> True | Some t \<Rightarrow> now < t)"

definition embed_attribute :: "database \<Rightarrow> user_attributes_row \<Rightarrow> UserAttribute option" where
  "embed_attribute db r = find (\<lambda>a. attr_id a = ua_attribute_id r) (abac_attributes db)"

definition active_grants :: "database \<Rightarrow> int \<Rightarrow> string \<Rightarrow> user_attributes_row list" where
  "active_grants db now uid =
     filter (\<lambda>r. ua_user_id r = uid \<and> is_active now r) (user_attributes db)"

text \<open>The query of \<^verbatim>\<open>getUserAttributes\<close>: each active grant with its catalog row embedded.\<close>

definition query_user_attributes :: "database \<Rightarrow> int \<Rightarrow> string \<Rightarrow> UserAttribute option list" where
  "query_user_attributes db now uid = map (embed_attribute db) (active_grants db now uid)"

text \<open>
  The query of \<^verbatim>\<open>checkClearanceLevel\<close>: an inner join, keeping the names that are
  \<^verbatim>\<open>LIKE 'clearance.%'\<close>.
\<close>

definition query_clearance_names :: "database \<Rightarrow> int \<Rightarrow> string \<Rightarrow> string list" where
  "query_clearance_names db now uid =
     filter (\<lambda>n. startsWith n ''clearance.'')
       (map name (List.map_filter (embed_attribute db) (active_grants db now uid)))"

text \<open>
  A client over a database at a time \<open>now\<close>; each of the three requests of one evaluation
  works, returns an error object or rejects.
\<close>

definition createClient ::
    "database \<Rightarrow> int \<Rightarrow> store_mode \<Rightarrow> store_mode \<Rightarrow> store_mode \<Rightarrow> supabase" where
  "createClient db now m_attrs m_clear m_log =
     \<lparr> select_user_attributes = (\<lambda>uid. respond m_attrs (query_user_attributes db now uid)),
       select_clearance_names = (\<lambda>uid. respond m_clear (query_clearance_names db now uid)),
       insert_policy_enforcement_log =
         (\<lambda>d. case m_log of Healthy \<Rightarrow> Response None None
                | ReturnsError \<Rightarrow> Response None (Some ''store error'')
                | Throws \<Rightarrow> Rejected) \<rparr>"

section \<open>The ABAC evaluator (evaluator.ts)\<close>

datatype error = ClientError | StoreRejected | StoreError string | TypeError

definition getUserAttributes :: "string \<Rightarrow> supabase \<Rightarrow> error + UserAttribute list" where
  "getUserAttributes uid sb =
     (case select_user_attributes sb uid of
        Rejected \<Rightarrow> Inl StoreRejected
      | Response d (Some e) \<Rightarrow> Inl (StoreError e)
      | Response None None \<Rightarrow> Inr []
      | Response (Some rows) None \<Rightarrow> Inr (List.map_filter (\<lambda>ua. ua) rows))"

definition mapping :: "(string \<times> string) list" where
  "mapping =
     [(''case.create'', ''case.create''),
      (''case.view'', ''case.list.view''),
      (''case.view_details'', ''case.details.view''),
      (''case.edit'', ''case.edit.metadata''),
      (''case.update_status'', ''case.edit.status''),
      (''case.assign'', ''case.assign.judge''),
      (''case.close'', ''case.close''),
      (''case.delete'', ''case.delete''),
      (''doc.view'', ''doc.view''),
      (''doc.upload'', ''doc.upload''),
      (''doc.download'', ''doc.download''),
      (''doc.sign'', ''doc.sign.digital''),
      (''doc.delete'', ''doc.delete''),
      (''user.list'', ''user.list.view''),
      (''user.view'', ''user.profile.view''),
      (''user.create'', ''user.create''),
      (''user.edit'', ''user.edit''),
      (''user.deactivate'', ''user.deactivate''),
      (''admin.reveal_identity'', ''admin.vault.reveal_identity''),
      (''admin.abac'', ''admin.abac.manage''),
      (''admin.audit'', ''admin.audit.view'')]"

text \<open>
  \<^verbatim>\<open>mapping[action] || null\<close>: every own entry is a non-empty string and every inherited
  property is truthy, so only an absent key gives null (\<^const>\<open>Undefined\<close>).
\<close>

definition mapActionToAttribute :: "string \<Rightarrow> string js_prop" where
  "mapActionToAttribute a = js_get mapping a"

definition rules :: "(string \<times> string list) list" where
  "rules =
     [(''restrict.no_export'', [''doc.download'', ''doc.export'']),
      (''restrict.no_delete'', [''case.delete'', ''doc.delete'', ''user.deactivate'']),
      (''restrict.read_only'', [''case.edit'', ''case.create'', ''doc.upload'', ''doc.delete''])]"

text \<open>
  \<^verbatim>\<open>(rules[restriction] || []).some(blocked => action.startsWith(blocked))\<close>. An inherited
  property is truthy and has no method \<^verbatim>\<open>some\<close>: the call throws a TypeError.
\<close>

definition restrictionAppliesToAction :: "string \<Rightarrow> string \<Rightarrow> error + bool" where
  "restrictionAppliesToAction restriction a =
     (case js_get rules restriction of
        Own blockedActions \<Rightarrow> Inr (list_ex (\<lambda>blocked. startsWith a blocked) blockedActions)
      | Inherited k \<Rightarrow> Inl TypeError
      | Undefined \<Rightarrow> Inr False)"

text \<open>
  The loop over the subject's restrictions: the first one that applies, none, or the
  exception of the first lookup that throws.
\<close>

fun first_restriction :: "UserAttribute list \<Rightarrow> string \<Rightarrow> error + UserAttribute option" where
  "first_restriction [] a = Inr None"
| "first_restriction (r # rs) a =
     (case restrictionAppliesToAction (name r) a of
        Inl e \<Rightarrow> Inl e
      | Inr True \<Rightarrow> Inr (Some r)
      | Inr False \<Rightarrow> first_restriction rs a)"

definition requiredLevels :: "(string \<times> int) list" where
  "requiredLevels = [(''public'', 1), (''confidential'', 2), (''secret'', 3), (''top_secret'', 4)]"

text \<open>The level the callback of \<^verbatim>\<open>data.map\<close> reads from a clearance name, L1 tested first.\<close>

definition level_of_name :: "string \<Rightarrow> int" where
  "level_of_name n =
     (if str_includes n ''L1'' then 1
      else if str_includes n ''L2'' then 2
      else if str_includes n ''L3'' then 3
      else if str_includes n ''L4'' then 4
      else 0)"

text \<open>\<^verbatim>\<open>Math.max\<close> of a non-empty argument list.\<close>

definition Math_max :: "int \<Rightarrow> int list \<Rightarrow> int" where
  "Math_max x xs = fold max xs x"

text \<open>
  \<^verbatim>\<open>checkClearanceLevel\<close> reads only \<^verbatim>\<open>data\<close> of the response: an error object is not
  looked at. \<^verbatim>\<open>requiredLevels[classification] || 1\<close> is the table's level, 1 for an absent
  key, and an inherited function or object otherwise, against which \<^verbatim>\<open>>=\<close> is false.
\<close>

definition checkClearanceLevel :: "string \<Rightarrow> string \<Rightarrow> supabase \<Rightarrow> error + bool" where
  "checkClearanceLevel uid classification sb =
     (case select_clearance_names sb uid of
        Rejected \<Rightarrow> Inl StoreRejected
      | Response None e \<Rightarrow> Inr (classification = ''public'')
      | Response (Some []) e \<Rightarrow> Inr (classification = ''public'')
      | Response (Some (n # ns)) e \<Rightarrow>
          (case js_get requiredLevels classification of
             Own requiredLevel \<Rightarrow>
               Inr (requiredLevel \<le> Math_max (level_of_name n) (map level_of_name ns))
           | Undefined \<Rightarrow> Inr (1 \<le> Math_max (level_of_name n) (map level_of_name ns))
           | Inherited k \<Rightarrow> Inr False))"

definition decision :: "EvaluationContext \<Rightarrow> bool \<Rightarrow> string \<Rightarrow> Decision" where
  "decision ctx ok why =
     \<lparr> log_user_id = userId ctx, log_policy_id = None, log_action = action ctx,
       log_resource_type = resourceType ctx, log_resource_id = resourceId ctx,
       log_result = (if ok then ''allow'' else ''deny''), log_reason = why,
       log_metadata = metadata ctx \<rparr>"

text \<open>
  \<^verbatim>\<open>logDecision\<close> issues one insert and ignores how it ends: a rejection is caught, an
  error object is not looked at. Its only effect is the request, appended to the trace of
  inserts issued so far.
\<close>

definition logDecision ::
    "EvaluationContext \<Rightarrow> bool \<Rightarrow> string \<Rightarrow> supabase \<Rightarrow> Decision list \<Rightarrow> Decision list" where
  "logDecision ctx ok why sb issued =
     (case insert_policy_enforcement_log sb (decision ctx ok why) of
        Rejected \<Rightarrow> issued @ [decision ctx ok why]
      | Response d e \<Rightarrow> issued @ [decision ctx ok why])"

text \<open>The rows the sink holds of the inserts issued: those that resolved without an error.\<close>

definition persisted :: "supabase \<Rightarrow> Decision list \<Rightarrow> Decision list" where
  "persisted sb issued =
     filter (\<lambda>d. case insert_policy_enforcement_log sb d of
                   Response x None \<Rightarrow> True | Response x (Some e) \<Rightarrow> False | Rejected \<Rightarrow> False)
       issued"

text \<open>\<^verbatim>\<open>context.metadata?.classification\<close>, when truthy.\<close>

definition classification_of :: "EvaluationContext \<Rightarrow> string option" where
  "classification_of ctx =
     (case metadata ctx of
        None \<Rightarrow> None
      | Some m \<Rightarrow>
          (case map_of m ''classification'' of
             None \<Rightarrow> None
           | Some c \<Rightarrow> if c = [] then None else Some c))"

definition quote :: "string" where
  "quote = [CHR 0x22]"

definition o_acute :: "string" where
  "o_acute = [CHR 0xF3]"

text \<open>
  The body of the \<^verbatim>\<open>try\<close> block of \<^verbatim>\<open>checkPermission\<close>: the inserts issued, and the
  result returned or the exception thrown. The client is \<open>None\<close> when \<^verbatim>\<open>createClient\<close>
  throws. In \<open>attributesChecked\<close> the value looked up stands as the text it prints as.
\<close>

definition try_checkPermission ::
    "supabase option \<Rightarrow> EvaluationContext \<Rightarrow> Decision list \<times> (error + EvaluationResult)" where
  "try_checkPermission client ctx =
     (case client of
        None \<Rightarrow> ([], Inl ClientError)
      | Some sb \<Rightarrow>
     (case getUserAttributes (userId ctx) sb of
        Inl e \<Rightarrow> ([], Inl e)
      | Inr userAttributes \<Rightarrow>
     (let requiredAttribute = mapActionToAttribute (action ctx) in
      if requiredAttribute \<noteq> Undefined
         \<and> \<not> list_ex (\<lambda>attr. Own (name attr) = requiredAttribute) userAttributes
      then
        (logDecision ctx False
           (''Missing required attribute: '' @ js_to_string requiredAttribute) sb [],
         Inr \<lparr> allowed = False,
               reason = ''Permiso denegado: requiere atributo '' @ quote
                          @ js_to_string requiredAttribute @ quote,
               policy = None,
               attributesChecked = Some [js_to_string requiredAttribute] \<rparr>)
      else
     (case first_restriction (filter (\<lambda>attr. category attr = ''restriction'') userAttributes)
             (action ctx) of
        Inl e \<Rightarrow> ([], Inl e)
      | Inr (Some restriction) \<Rightarrow>
          (logDecision ctx False (''Blocked by restriction: '' @ name restriction) sb [],
           Inr \<lparr> allowed = False,
                 reason = ''Acci'' @ o_acute @ ''n bloqueada por restricci'' @ o_acute @ ''n: ''
                            @ (case description restriction of None \<Rightarrow> ''null'' | Some t \<Rightarrow> t),
                 policy = Some ''Restriction Policy'',
                 attributesChecked = None \<rparr>)
      | Inr None \<Rightarrow>
     (case (if resourceType ctx = ''case'' then classification_of ctx else None) of
        Some classification \<Rightarrow>
          (case checkClearanceLevel (userId ctx) classification sb of
             Inl e \<Rightarrow> ([], Inl e)
           | Inr False \<Rightarrow>
               (logDecision ctx False
                  (''Insufficient clearance for classification: '' @ classification) sb [],
                Inr \<lparr> allowed = False,
                      reason = ''Nivel de seguridad insuficiente para este caso'',
                      policy = Some ''Classification Control'',
                      attributesChecked = None \<rparr>)
           | Inr True \<Rightarrow>
               (logDecision ctx True ''All checks passed'' sb [],
                Inr \<lparr> allowed = True, reason = ''Acceso permitido'', policy = None,
                      attributesChecked = Some (map name userAttributes) \<rparr>))
      | None \<Rightarrow>
          (logDecision ctx True ''All checks passed'' sb [],
           Inr \<lparr> allowed = True, reason = ''Acceso permitido'', policy = None,
                 attributesChecked = Some (map name userAttributes) \<rparr>))))))"

text \<open>
  \<^verbatim>\<open>checkPermission\<close>: the \<^verbatim>\<open>catch\<close> block turns any exception into the system-error
  denial and issues no insert of its own.
\<close>

definition checkPermission ::
    "supabase option \<Rightarrow> EvaluationContext \<Rightarrow> EvaluationResult \<times> Decision list" where
  "checkPermission client ctx =
     (case try_checkPermission client ctx of
        (issued, Inr r) \<Rightarrow> (r, issued)
      | (issued, Inl e) \<Rightarrow>
          (\<lparr> allowed = False,
             reason = ''Error del sistema - acceso denegado por seguridad'',
             policy = None, attributesChecked = None \<rparr>, issued))"

section \<open>Notions the properties are stated with\<close>

text \<open>
  The catalog rows of a subject's active grants: what a working attribute read gives
  \<^verbatim>\<open>checkPermission\<close> after \<^verbatim>\<open>filter(Boolean)\<close>.
\<close>

definition active_attributes :: "database \<Rightarrow> int \<Rightarrow> string \<Rightarrow> UserAttribute list" where
  "active_attributes db now uid = List.map_filter (embed_attribute db) (active_grants db now uid)"

text \<open>Step 2 of the evaluation lets the request through.\<close>

definition primary_check_passes :: "UserAttribute list \<Rightarrow> string \<Rightarrow> bool" where
  "primary_check_passes attrs a =
     (case mapActionToAttribute a of
        Undefined \<Rightarrow> True
      | Own required \<Rightarrow> required \<in> set (map name attrs)
      | Inherited k \<Rightarrow> False)"

text \<open>No restriction of the list has a name that a plain object inherits.\<close>

definition plain_restriction_names :: "UserAttribute list \<Rightarrow> bool" where
  "plain_restriction_names attrs =
     (filter (\<lambda>attr. category attr = ''restriction'' \<and> name attr \<in> set object_prototype_keys) attrs
        = [])"

text \<open>The evaluation leaves the \<^verbatim>\<open>try\<close> block by one of its \<^verbatim>\<open>return\<close> statements.\<close>

definition completes :: "supabase option \<Rightarrow> EvaluationContext \<Rightarrow> bool" where
  "completes client ctx =
     (case snd (try_checkPermission client ctx) of Inr res \<Rightarrow> True | Inl e \<Rightarrow> False)"

definition system_denial :: EvaluationResult where
  "system_denial =
     \<lparr> allowed = False, reason = ''Error del sistema - acceso denegado por seguridad'',
       policy = None, attributesChecked = None \<rparr>"

text \<open>The table \<^verbatim>\<open>CLASSIFICATION_LEVELS\<close> of \<^verbatim>\<open>types.ts\<close>.\<close>

definition CLASSIFICATION_LEVELS :: "(string \<times> int) list" where
  "CLASSIFICATION_LEVELS =
     [(''public'', 1), (''confidential'', 2), (''secret'', 3), (''top_secret'', 4)]"

text \<open>
  The clearance level of a subject with at least one clearance attribute: the greatest
  level among their names.
\<close>

definition clearanceLevel :: "string list \<Rightarrow> int" where
  "clearanceLevel names = Max (set (map level_of_name names))"

section \<open>The grant trigger (migration 016)\<close>

text \<open>
  \<^verbatim>\<open>check_admin_no_vault_access\<close> runs before every insert or update of a row of
  \<^verbatim>\<open>user_attributes\<close>. A role or a name that is not found is NULL, and a condition on NULL
  does not hold, so the row passes. \<^verbatim>\<open>LIKE 'p%'\<close> is a prefix test.
\<close>

definition check_admin_no_vault_access ::
    "database \<Rightarrow> user_attributes_row \<Rightarrow> string + user_attributes_row" where
  "check_admin_no_vault_access db new =
     (case map_of (users_profile db) (ua_user_id new) of
        None \<Rightarrow> Inr new
      | Some user_role \<Rightarrow>
     (case embed_attribute db new of
        None \<Rightarrow> Inr new
      | Some a \<Rightarrow>
          if user_role = ''admin'' \<and> startsWith (name a) ''admin.vault.''
          then Inl (''SECURITY VIOLATION: Admin role cannot have vault access attributes. Attempted: ''
                    @ name a)
          else if user_role = ''admin''
                  \<and> name a \<in> set [''user.profile.view'', ''user.create'', ''user.edit'',
                                      ''user.deactivate'']
          then Inl (''SECURITY VIOLATION: Admin role cannot have user management attributes. Attempted: ''
                    @ name a)
          else if user_role = ''admin'' \<and> startsWith (name a) ''case.''
                  \<and> name a \<noteq> ''audit.cases.stats''
          then Inl (''SECURITY VIOLATION: Admin role cannot have case access attributes. Attempted: ''
                    @ name a)
          else Inr new))"

text \<open>
  The statements that change \<^verbatim>\<open>user_attributes\<close>. An insert or an update that the trigger
  raises on is rolled back; a delete fires no trigger.
\<close>

datatype grant_op =
    InsertGrant user_attributes_row
  | UpdateGrant nat user_attributes_row
  | DeleteGrant nat

definition apply_grant_op :: "database \<Rightarrow> grant_op \<Rightarrow> string + database" where
  "apply_grant_op db op =
     (case op of
        InsertGrant new \<Rightarrow>
          (case check_admin_no_vault_access db new of
             Inl e \<Rightarrow> Inl e
           | Inr row \<Rightarrow> Inr (db\<lparr>user_attributes := user_attributes db @ [row]\<rparr>))
      | UpdateGrant i new \<Rightarrow>
          if i < length (user_attributes db)
          then (case check_admin_no_vault_access db new of
                  Inl e \<Rightarrow> Inl e
                | Inr row \<Rightarrow> Inr (db\<lparr>user_attributes := (user_attributes db)[i := row]\<rparr>))
          else Inr db
      | DeleteGrant i \<Rightarrow>
          Inr (db\<lparr>user_attributes := take i (user_attributes db) @ drop (Suc i) (user_attributes db)\<rparr>))"

fun apply_grant_ops :: "database \<Rightarrow> grant_op list \<Rightarrow> database" where
  "apply_grant_ops db [] = db"
| "apply_grant_ops db (op # ops) =
     (case apply_grant_op db op of
        Inl e \<Rightarrow> apply_grant_ops db ops
      | Inr db' \<Rightarrow> apply_grant_ops db' ops)"

text \<open>
  The invariant in the words of the specification: the names that denote vault-reveal,
  user-management or case-content capabilities, and a grant of one of them to a subject
  whose role is the auditor's (\<^verbatim>\<open>admin\<close> in the repository).
\<close>

definition denotes_forbidden_capability :: "string \<Rightarrow> bool" where
  "denotes_forbidden_capability n =
     (startsWith n ''admin.vault.''
      \<or> n \<in> set [''user.profile.view'', ''user.create'', ''user.edit'', ''user.deactivate'']
      \<or> startsWith n ''case.'')"

definition forbidden_grant :: "database \<Rightarrow> user_attributes_row \<Rightarrow> bool" where
  "forbidden_grant db r =
     (map_of (users_profile db) (ua_user_id r) = Some ''admin''
      \<and> (case embed_attribute db r of
            None \<Rightarrow> False
          | Some a \<Rightarrow> denotes_forbidden_capability (name a)))"

definition auditor_invariant :: "database \<Rightarrow> bool" where
  "auditor_invariant db = (filter (forbidden_grant db) (user_attributes db) = [])"

section \<open>The anonymized view (migration 016)\<close>

text \<open>
  The columns of \<^verbatim>\<open>policy_enforcement_log\<close> the view reads or leaves out, and the row of
  \<^verbatim>\<open>audit_logs_sanitized\<close>. Timestamps are seconds since the epoch.
\<close>

record policy_enforcement_log_row =
  pel_id :: string
  pel_user_id :: string
  pel_action :: string
  pel_resource_type :: string
  pel_resource_id :: "string option"
  pel_result :: string
  pel_reason :: "string option"
  pel_metadata :: "(string \<times> string) list option"
  pel_timestamp :: int

record audit_logs_sanitized_row =
  san_id :: string
  user_hash :: string
  san_action :: string
  san_resource_type :: string
  san_result :: string
  reason_sanitized :: "string option"
  san_timestamp :: int
  hour_of_day :: int
  day_of_week :: int

text \<open>
  The regular expression
  \<^verbatim>\<open>[0-9a-f]{8}-[0-9a-f]{4}-[0-9a-f]{4}-[0-9a-f]{4}-[0-9a-f]{12}\<close>, matched anywhere in the
  text and in lower case only.
\<close>

definition lower_hex :: "char \<Rightarrow> bool" where
  "lower_hex c = (c \<in> set ''0123456789abcdef'')"

fun hex_run :: "nat \<Rightarrow> string \<Rightarrow> string option" where
  "hex_run 0 s = Some s"
| "hex_run (Suc n) [] = None"
| "hex_run (Suc n) (c # cs) = (if lower_hex c then hex_run n cs else None)"

fun dash :: "string \<Rightarrow> string option" where
  "dash [] = None"
| "dash (c # cs) = (if c = CHR ''-'' then Some cs else None)"

definition uuid_here :: "string \<Rightarrow> bool" where
  "uuid_here s =
     (Option.bind (Option.bind (Option.bind (Option.bind (Option.bind (Option.bind
        (Option.bind (Option.bind (hex_run 8 s) dash) (hex_run 4)) dash) (hex_run 4)) dash)
        (hex_run 4)) dash) (hex_run 12) \<noteq> None)"

fun contains_uuid :: "string \<Rightarrow> bool" where
  "contains_uuid [] = uuid_here []"
| "contains_uuid (c # cs) = (uuid_here (c # cs) \<or> contains_uuid cs)"

definition sanitize_reason :: "string option \<Rightarrow> string option" where
  "sanitize_reason r =
     (case r of
        None \<Rightarrow> None
      | Some s \<Rightarrow>
          if contains_uuid s then Some ''Access decision logged''
          else if 100 < length s then Some (take 100 s @ ''...'')
          else Some s)"

text \<open>
  One row of the view. \<^verbatim>\<open>MD5\<close> is the database's function, passed in as \<open>md5\<close>; the hour
  and the day of the week are read in UTC.
\<close>

definition audit_logs_sanitized ::
    "(string \<Rightarrow> string) \<Rightarrow> policy_enforcement_log_row \<Rightarrow> audit_logs_sanitized_row" where
  "audit_logs_sanitized md5 pel =
     \<lparr> san_id = pel_id pel,
       user_hash = take 8 (md5 (pel_user_id pel)),
       san_action = pel_action pel,
       san_resource_type = pel_resource_type pel,
       san_result = pel_result pel,
       reason_sanitized = sanitize_reason (pel_reason pel),
       san_timestamp = pel_timestamp pel,
       hour_of_day = (pel_timestamp pel div 3600) mod 24,
       day_of_week = (pel_timestamp pel div 86400 + 4) mod 7 \<rparr>"

text \<open>
  The row of \<^verbatim>\<open>policy_enforcement_log\<close> that the insert of a decision leaves, with the
  identifier and the timestamp the database gives it.
\<close>

definition stored_row :: "string \<Rightarrow> int \<Rightarrow> Decision \<Rightarrow> policy_enforcement_log_row" where
  "stored_row rid ts d =
     \<lparr> pel_id = rid, pel_user_id = log_user_id d, pel_action = log_action d,
       pel_resource_type = log_resource_type d, pel_resource_id = log_resource_id d,
       pel_result = log_result d, pel_reason = Some (log_reason d),
       pel_metadata = log_metadata d, pel_timestamp = ts \<rparr>"

section \<open>The rate limiter (middleware.ts)\<close>

record rate_entry =
  count :: int
  resetAt :: int

type_synonym rateLimitStore = "string \<Rightarrow> rate_entry option"

record rate_limit =
  rl_allowed :: bool
  remaining :: int
  resetIn :: int

definition RATE_LIMIT_WINDOW_MS :: int where
  "RATE_LIMIT_WINDOW_MS = 60 * 1000"

definition ADMIN_RATE_LIMIT :: int where
  "ADMIN_RATE_LIMIT = 50"

text \<open>
  \<^verbatim>\<open>checkRateLimit\<close> with the module's map and the clock \<^verbatim>\<open>Date.now()\<close> passed in and
  the map returned.
\<close>

definition checkRateLimit ::
    "rateLimitStore \<Rightarrow> int \<Rightarrow> string \<Rightarrow> int \<Rightarrow> rate_limit \<times> rateLimitStore" where
  "checkRateLimit store now identifier maxRequests =
     (let key = ''rate:'' @ identifier;
          fresh = (\<lparr> rl_allowed = True, remaining = maxRequests - 1,
                     resetIn = RATE_LIMIT_WINDOW_MS \<rparr>,
                   store(key := Some \<lparr> count = 1, resetAt = now + RATE_LIMIT_WINDOW_MS \<rparr>))
      in case store key of
           None \<Rightarrow> fresh
         | Some current \<Rightarrow>
             if resetAt current < now then fresh
             else (\<lparr> rl_allowed = (count current + 1 \<le> maxRequests),
                     remaining = max 0 (maxRequests - (count current + 1)),
                     resetIn = resetAt current - now \<rparr>,
                   store(key := Some (current\<lparr> count := count current + 1 \<rparr>))))"

text \<open>The principal has a window that has not elapsed at the time \<open>now\<close>.\<close>

definition window_open :: "rateLimitStore \<Rightarrow> string \<Rightarrow> int \<Rightarrow> bool" where
  "window_open store identifier now =
     (case store (''rate:'' @ identifier) of
        None \<Rightarrow> False
      | Some current \<Rightarrow> \<not> resetAt current < now)"

text \<open>The requests of one principal at the given times, in order: the answers and the map left.\<close>

fun requests :: "rateLimitStore \<Rightarrow> string \<Rightarrow> int \<Rightarrow> int list \<Rightarrow> bool list \<times> rateLimitStore" where
  "requests store identifier maxRequests [] = ([], store)"
| "requests store identifier maxRequests (now # later) =
     (let (r, store') = checkRateLimit store now identifier maxRequests;
          (rs, store'') = requests store' identifier maxRequests later
      in (rl_allowed r # rs, store''))"

section \<open>Ephemeral credentials\<close>

record EphemeralCredential =
  token :: string
  caseId :: string
  issuedTo :: string
  issuedAt :: int
  expiresAt :: int
  usedAt :: "int option"

type_synonym credentials = "string \<Rightarrow> EphemeralCredential option"

text \<open>
  Modelled from the spec: the service \<^verbatim>\<open>EphemeralCredentialsService\<close> of
  \<^verbatim>\<open>lib/services/ephemeral-credentials\<close> is not among the sources, only its call site in the
  judge's case page. \<open>issue\<close> creates a credential with \<open>expiresAt = now + ttl\<close> and no
  \<open>usedAt\<close>; the token value is the caller's random string.
\<close>

definition issue ::
    "credentials \<Rightarrow> string \<Rightarrow> string \<Rightarrow> string \<Rightarrow> int \<Rightarrow> int \<Rightarrow> credentials" where
  "issue store tok cid judge now ttl =
     store(tok := Some \<lparr> token = tok, caseId = cid, issuedTo = judge, issuedAt = now,
                          expiresAt = now + ttl, usedAt = None \<rparr>)"

text \<open>
  Modelled from the spec: \<open>validate\<close> of the same absent service. In one atomic step it
  checks \<open>usedAt is null and expiresAt > now\<close> and, if so, sets \<open>usedAt = now\<close> and returns
  the bound case; an unknown, expired or used token gives null (\<open>None\<close>) and changes
  nothing.
\<close>

definition validate :: "credentials \<Rightarrow> int \<Rightarrow> string \<Rightarrow> string option \<times> credentials" where
  "validate store now tok =
     (case store tok of
        None \<Rightarrow> (None, store)
      | Some c \<Rightarrow>
          if usedAt c = None \<and> now < expiresAt c
          then (Some (caseId c), store(tok := Some (c\<lparr> usedAt := Some now \<rparr>)))
          else (None, store))"

text \<open>A sequence of validations, each a time and a token: the answers and the store left.\<close>

fun validations ::
    "credentials \<Rightarrow> (int \<times> string) list \<Rightarrow> string option list \<times> credentials" where
  "validations store [] = ([], store)"
| "validations store ((now, tok) # calls) =
     (let (r, store') = validate store now tok;
          (rs, store'') = validations store' calls
      in (r # rs, store''))"

text \<open>How many of the calls on the token \<open>tok\<close> were answered with a case.\<close>

fun successes :: "string \<Rightarrow> (int \<times> string) list \<Rightarrow> string option list \<Rightarrow> nat" where
  "successes tok ((now, k) # calls) (r # rs) =
     (if k = tok \<and> r \<noteq> None then 1 else 0) + successes tok calls rs"
| "successes tok calls rs = 0"

section \<open>A small installation\<close>

text \<open>
  A catalog with names of \<^verbatim>\<open>ATTRIBUTES\<close> in \<^verbatim>\<open>types.ts\<close> and one clearance name
  without a tier, a secretary who holds only \<^verbatim>\<open>case.create\<close>, a judge under an export
  restriction, a judge with the second tier, a judge whose clearance has no tier, a clerk
  who holds nothing but the export restriction, and an auditor.
\<close>

definition demo_catalog :: "UserAttribute list" where
  "demo_catalog =
     [\<lparr> attr_id = ''a-create'', name = ''case.create'', category = ''permission'',
         level = 1, description = Some ''Crear casos'' \<rparr>,
      \<lparr> attr_id = ''a-download'', name = ''doc.download'', category = ''permission'',
         level = 1, description = Some ''Descargar documentos'' \<rparr>,
      \<lparr> attr_id = ''a-noexport'', name = ''restrict.no_export'', category = ''restriction'',
         level = 1, description = Some ''Sin exportar'' \<rparr>,
      \<lparr> attr_id = ''a-l2'', name = ''clearance.L2.confidential'', category = ''authorization'',
         level = 2, description = None \<rparr>,
      \<lparr> attr_id = ''a-l4'', name = ''clearance.L4.top_secret'', category = ''authorization'',
         level = 4, description = None \<rparr>,
      \<lparr> attr_id = ''a-logs'', name = ''audit.logs.view'', category = ''permission'',
         level = 3, description = None \<rparr>,
      \<lparr> attr_id = ''a-susp'', name = ''clearance.suspended'', category = ''authorization'',
         level = 0, description = None \<rparr>]"

definition demo_db :: database where
  "demo_db =
     \<lparr> abac_attributes = demo_catalog,
       user_attributes =
         [\<lparr> ua_user_id = ''secretary-1'', ua_attribute_id = ''a-create'', ua_expires_at = None \<rparr>,
          \<lparr> ua_user_id = ''judge-1'', ua_attribute_id = ''a-download'', ua_expires_at = None \<rparr>,
          \<lparr> ua_user_id = ''judge-1'', ua_attribute_id = ''a-noexport'', ua_expires_at = Some 500 \<rparr>,
          \<lparr> ua_user_id = ''judge-1'', ua_attribute_id = ''a-l4'', ua_expires_at = None \<rparr>,
          \<lparr> ua_user_id = ''judge-2'', ua_attribute_id = ''a-l2'', ua_expires_at = None \<rparr>,
          \<lparr> ua_user_id = ''auditor-1'', ua_attribute_id = ''a-logs'', ua_expires_at = None \<rparr>,
          \<lparr> ua_user_id = ''judge-3'', ua_attribute_id = ''a-susp'', ua_expires_at = None \<rparr>,
          \<lparr> ua_user_id = ''clerk-1'', ua_attribute_id = ''a-noexport'', ua_expires_at = None \<rparr>],
       users_profile =
         [(''secretary-1'', ''secretary''), (''judge-1'', ''judge''), (''judge-2'', ''judge''),
          (''judge-3'', ''judge''), (''clerk-1'', ''secretary''), (''auditor-1'', ''admin'')] \<rparr>"

text \<open>
  The same installation with a grant of \<^verbatim>\<open>case.create\<close> to the auditor put into the
  table behind the trigger's back.
\<close>

definition tampered_db :: database where
  "tampered_db =
     demo_db\<lparr> user_attributes :=
       \<lparr> ua_user_id = ''auditor-1'', ua_attribute_id = ''a-create'', ua_expires_at = None \<rparr>
         # user_attributes demo_db \<rparr>"

definition request ::
    "string \<Rightarrow> string \<Rightarrow> string \<Rightarrow> (string \<times> string) list option \<Rightarrow> EvaluationContext" where
  "request uid a rtype md =
     \<lparr> userId = uid, action = a, resourceType = rtype, resourceId = None, metadata = md \<rparr>"

section \<open>Basic facts\<close>

lemma startsWith_self: "startsWith s s"
  by (induction s) auto

lemma startsWith_iff: "startsWith s p \<longleftrightarrow> (\<exists>t. s = p @ t)"
  by (induction s p rule: startsWith.induct) auto

lemma str_includes_iff: "str_includes s sub \<longleftrightarrow> (\<exists>a b. s = a @ sub @ b)"
proof (induction s)
  case Nil
  then show ?case by (cases sub) auto
next
  case (Cons c cs)
  show ?case
  proof
    assume "str_includes (c # cs) sub"
    then consider "startsWith (c # cs) sub" | "str_includes cs sub" by auto
    then show "\<exists>a b. c # cs = a @ sub @ b"
    proof cases
      case 1
      then obtain t where "c # cs = sub @ t" unfolding startsWith_iff by blast
      then have "c # cs = [] @ sub @ t" by simp
      then show ?thesis by blast
    next
      case 2
      then obtain a b where "cs = a @ sub @ b" using Cons.IH by blast
      then have "c # cs = (c # a) @ sub @ b" by simp
      then show ?thesis by blast
    qed
  next
    assume "\<exists>a b. c # cs = a @ sub @ b"
    then obtain a b where ab: "c # cs = a @ sub @ b" by blast
    show "str_includes (c # cs) sub"
    proof (cases a)
      case Nil
      with ab have "startsWith (c # cs) sub" unfolding startsWith_iff by auto
      then show ?thesis by simp
    next
      case (Cons x a')
      with ab have "cs = a' @ sub @ b" by simp
      then have "str_includes cs sub" using Cons.IH by blast
      then show ?thesis by simp
    qed
  qed
qed

lemma map_filter_id_map: "List.map_filter (\<lambda>ua. ua) (map f xs) = List.map_filter f xs"
  by (induction xs) (auto simp: List.map_filter_simps split: option.splits)

lemma list_ex_name: "list_ex (\<lambda>attr. name attr = r) xs \<longleftrightarrow> r \<in> set (map name xs)"
  by (induction xs) auto


lemma getUserAttributes_createClient:
  "getUserAttributes uid (createClient db now m1 m2 m3) =
     (case m1 of Healthy \<Rightarrow> Inr (active_attributes db now uid)
      | ReturnsError \<Rightarrow> Inl (StoreError ''store error'')
      | Throws \<Rightarrow> Inl StoreRejected)"
  by (cases m1)
     (simp_all add: getUserAttributes_def createClient_def respond_def active_attributes_def
        query_user_attributes_def map_filter_id_map)

lemma mapActionToAttribute_Own: "map_of mapping a = Some r \<Longrightarrow> mapActionToAttribute a = Own r"
  by (simp add: mapActionToAttribute_def js_get_def)

lemma restriction_applies:
  assumes "map_of rules n = Some blockedActions"
    and "list_ex (\<lambda>blocked. startsWith a blocked) blockedActions"
  shows "restrictionAppliesToAction n a = Inr True"
  using assms by (simp add: restrictionAppliesToAction_def js_get_def)

lemma first_restriction_hit:
  assumes "r \<in> set rs" and "restrictionAppliesToAction (name r) a = Inr True"
  shows "first_restriction rs a \<noteq> Inr None"
  using assms
proof (induction rs)
  case Nil
  then show ?case by simp
next
  case (Cons x xs)
  then show ?case
    by (cases "restrictionAppliesToAction (name x) a") (auto split: bool.splits)
qed

lemma first_restriction_plain:
  assumes "\<forall>r \<in> set rs. name r \<notin> set object_prototype_keys"
  shows "\<exists>found. first_restriction rs a = Inr found"
  using assms
proof (induction rs)
  case Nil
  then show ?case by simp
next
  case (Cons x xs)
  have "\<exists>b. restrictionAppliesToAction (name x) a = Inr b"
    using Cons.prems by (auto simp: restrictionAppliesToAction_def js_get_def split: option.splits)
  then obtain b where "restrictionAppliesToAction (name x) a = Inr b" by blast
  then show ?case using Cons by (cases b) auto
qed

lemma first_restriction_member:
  "first_restriction rs a = Inr (Some r) \<Longrightarrow> r \<in> set rs"
  by (induction rs) (auto split: sum.splits bool.splits)

lemma primary_check_passes_iff:
  "primary_check_passes attrs a \<longleftrightarrow>
     \<not> (mapActionToAttribute a \<noteq> Undefined
        \<and> \<not> list_ex (\<lambda>attr. Own (name attr) = mapActionToAttribute a) attrs)"
  by (cases "mapActionToAttribute a") (auto simp: primary_check_passes_def list_ex_iff)

lemma try_attribute_read_fails:
  assumes "m_attrs \<noteq> Healthy"
  shows "\<exists>e. try_checkPermission (Some (createClient db now m_attrs m_clear m_log)) ctx = ([], Inl e)"
  using assms
  by (cases m_attrs) (simp_all add: try_checkPermission_def getUserAttributes_createClient)

lemma try_missing:
  assumes "\<not> primary_check_passes (active_attributes db now (userId ctx)) (action ctx)"
  shows "try_checkPermission (Some (createClient db now Healthy m_clear m_log)) ctx =
      ([decision ctx False
          (''Missing required attribute: '' @ js_to_string (mapActionToAttribute (action ctx)))],
       Inr \<lparr> allowed = False,
             reason = ''Permiso denegado: requiere atributo '' @ quote
                        @ js_to_string (mapActionToAttribute (action ctx)) @ quote,
             policy = None,
             attributesChecked = Some [js_to_string (mapActionToAttribute (action ctx))] \<rparr>)"
  using assms
  by (simp add: try_checkPermission_def getUserAttributes_createClient primary_check_passes_iff
        logDecision_def Let_def split: response.splits)

lemma try_restriction_throws:
  assumes "primary_check_passes (active_attributes db now (userId ctx)) (action ctx)"
    and "first_restriction
           (filter (\<lambda>attr. category attr = ''restriction'') (active_attributes db now (userId ctx)))
           (action ctx) = Inl e"
  shows "try_checkPermission (Some (createClient db now Healthy m_clear m_log)) ctx = ([], Inl e)"
  using assms
  by (simp add: try_checkPermission_def getUserAttributes_createClient primary_check_passes_iff
        Let_def)

lemma try_restricted:
  assumes "primary_check_passes (active_attributes db now (userId ctx)) (action ctx)"
    and "first_restriction
           (filter (\<lambda>attr. category attr = ''restriction'') (active_attributes db now (userId ctx)))
           (action ctx) = Inr (Some restriction)"
  shows "try_checkPermission (Some (createClient db now Healthy m_clear m_log)) ctx =
      ([decision ctx False (''Blocked by restriction: '' @ name restriction)],
       Inr \<lparr> allowed = False,
             reason = ''Acci'' @ o_acute @ ''n bloqueada por restricci'' @ o_acute @ ''n: ''
                        @ (case description restriction of None \<Rightarrow> ''null'' | Some t \<Rightarrow> t),
             policy = Some ''Restriction Policy'',
             attributesChecked = None \<rparr>)"
  using assms
  by (simp add: try_checkPermission_def getUserAttributes_createClient primary_check_passes_iff
        logDecision_def Let_def split: response.splits)

lemma try_unrestricted:
  assumes "primary_check_passes (active_attributes db now (userId ctx)) (action ctx)"
    and "first_restriction
           (filter (\<lambda>attr. category attr = ''restriction'') (active_attributes db now (userId ctx)))
           (action ctx) = Inr None"
  shows "try_checkPermission (Some (createClient db now Healthy m_clear m_log)) ctx =
      (case (if resourceType ctx = ''case'' then classification_of ctx else None) of
         Some classification \<Rightarrow>
           (case checkClearanceLevel (userId ctx) classification
                   (createClient db now Healthy m_clear m_log) of
              Inl e \<Rightarrow> ([], Inl e)
            | Inr False \<Rightarrow>
                ([decision ctx False
                    (''Insufficient clearance for classification: '' @ classification)],
                 Inr \<lparr> allowed = False,
                       reason = ''Nivel de seguridad insuficiente para este caso'',
                       policy = Some ''Classification Control'',
                       attributesChecked = None \<rparr>)
            | Inr True \<Rightarrow>
                ([decision ctx True ''All checks passed''],
                 Inr \<lparr> allowed = True, reason = ''Acceso permitido'', policy = None,
                       attributesChecked =
                         Some (map name (active_attributes db now (userId ctx))) \<rparr>))
       | None \<Rightarrow>
           ([decision ctx True ''All checks passed''],
            Inr \<lparr> allowed = True, reason = ''Acceso permitido'', policy = None,
                  attributesChecked = Some (map name (active_attributes db now (userId ctx))) \<rparr>))"
  using assms
  by (simp add: try_checkPermission_def getUserAttributes_createClient primary_check_passes_iff
        logDecision_def Let_def split: response.splits option.splits sum.splits bool.splits)

section \<open>Missing permission attribute\<close>

text \<open>
  Claim C5. For every subject and every action that has an entry in the table \<open>mapping\<close>:
  if the subject's active attribute grants do not include the mapped attribute,
  \<^verbatim>\<open>checkPermission\<close> returns \<open>allowed = False\<close>, whatever the store does. When the
  attribute read works, the returned reason names the missing attribute, the attribute is
  the one listed in \<open>attributesChecked\<close>, and the insert issued records the denial.
\<close>

theorem missing_attribute_denied:
  assumes "map_of mapping (action ctx) = Some required"
    and "required \<notin> set (map name (active_attributes db now (userId ctx)))"
    and "client = None \<or> client = Some (createClient db now m_attrs m_clear m_log)"
  shows "\<not> allowed (fst (checkPermission client ctx))
     \<and> (client \<noteq> None \<and> m_attrs = Healthy \<longrightarrow>
          reason (fst (checkPermission client ctx))
            = ''Permiso denegado: requiere atributo '' @ quote @ required @ quote
        \<and> str_includes (reason (fst (checkPermission client ctx))) required
        \<and> attributesChecked (fst (checkPermission client ctx)) = Some [required]
        \<and> snd (checkPermission client ctx)
            = [decision ctx False (''Missing required attribute: '' @ required)])"
proof -
  have req: "mapActionToAttribute (action ctx) = Own required"
    using assms(1) by (rule mapActionToAttribute_Own)
  have nex: "\<not> list_ex (\<lambda>attr. Own (name attr) = Own required) (active_attributes db now (userId ctx))"
    using assms(2) by (simp add: list_ex_name)
  show ?thesis
  proof (cases client)
    case None
    then show ?thesis by (simp add: checkPermission_def try_checkPermission_def)
  next
    case (Some sb)
    with assms(3) have sb: "sb = createClient db now m_attrs m_clear m_log" by simp
    show ?thesis
    proof (cases m_attrs)
      case Healthy
      have inc: "str_includes (''Permiso denegado: requiere atributo '' @ quote @ required @ quote) required"
        unfolding str_includes_iff by (metis append.assoc)
      show ?thesis using Some sb Healthy req nex inc
        by (simp add: checkPermission_def try_checkPermission_def getUserAttributes_createClient
              js_to_string_def logDecision_def split: response.splits)
    next
      case ReturnsError
      then show ?thesis using Some sb
        by (simp add: checkPermission_def try_checkPermission_def getUserAttributes_createClient)
    next
      case Throws
      then show ?thesis using Some sb
        by (simp add: checkPermission_def try_checkPermission_def getUserAttributes_createClient)
    qed
  qed
qed

theorem missing_attribute_denied_witness:
  "map_of mapping ''case.edit'' = Some ''case.edit.metadata''
   \<and> ''case.edit.metadata'' \<notin> set (map name (active_attributes demo_db 0 ''secretary-1''))
   \<and> \<not> allowed (fst (checkPermission (Some (createClient demo_db 0 Healthy Healthy Healthy))
                      (request ''secretary-1'' ''case.edit'' ''cases'' None)))
   \<and> reason (fst (checkPermission (Some (createClient demo_db 0 Healthy Healthy Healthy))
                      (request ''secretary-1'' ''case.edit'' ''cases'' None)))
       = ''Permiso denegado: requiere atributo '' @ quote @ ''case.edit.metadata'' @ quote
   \<and> snd (checkPermission (Some (createClient demo_db 0 Healthy Healthy Healthy))
                      (request ''secretary-1'' ''case.edit'' ''cases'' None))
       = [decision (request ''secretary-1'' ''case.edit'' ''cases'' None) False
            ''Missing required attribute: case.edit.metadata'']"
proof -
  let ?ctx = "request ''secretary-1'' ''case.edit'' ''cases'' None"
  have a: "map_of mapping (action ?ctx) = Some ''case.edit.metadata''"
    by (simp add: request_def mapping_def)
  have b: "''case.edit.metadata'' \<notin> set (map name (active_attributes demo_db 0 (userId ?ctx)))"
    by (simp add: request_def active_attributes_def active_grants_def is_active_def
          embed_attribute_def demo_db_def demo_catalog_def List.map_filter_simps)
  have c: "Some (createClient demo_db 0 Healthy Healthy Healthy) = None
        \<or> Some (createClient demo_db 0 Healthy Healthy Healthy)
            = Some (createClient demo_db 0 Healthy Healthy Healthy)"
    by simp
  from missing_attribute_denied[OF a b c] a b show ?thesis
    by (simp add: request_def)
qed

section \<open>Restrictions\<close>

text \<open>
  Claim C4. A subject holds an active restriction attribute whose entry in the table
  \<open>rules\<close> has a prefix of the requested action. Then \<^verbatim>\<open>checkPermission\<close> returns
  \<open>allowed = False\<close>, whatever else the subject holds and whatever the store does; the
  answer of the clearance read has no influence on the result; a failed primary check is
  reported first (no policy, the reason of the missing attribute); and once the primary
  check passes, the denial is the one of the restriction policy, with the insert of a
  restriction the subject holds.
\<close>

theorem restriction_overrides:
  assumes held: "r \<in> set (active_attributes db now (userId ctx))"
    and cat: "category r = ''restriction''"
    and entry: "map_of rules (name r) = Some blockedActions"
    and hit: "list_ex (\<lambda>blocked. startsWith (action ctx) blocked) blockedActions"
    and cl: "client = None \<or> client = Some (createClient db now m_attrs m_clear m_log)"
  shows "\<not> allowed (fst (checkPermission client ctx))
    \<and> fst (checkPermission (Some (createClient db now m_attrs m_clear' m_log)) ctx)
        = fst (checkPermission (Some (createClient db now m_attrs m_clear m_log)) ctx)
    \<and> (client \<noteq> None \<and> m_attrs = Healthy
         \<and> \<not> primary_check_passes (active_attributes db now (userId ctx)) (action ctx) \<longrightarrow>
           policy (fst (checkPermission client ctx)) = None
         \<and> startsWith (reason (fst (checkPermission client ctx))) ''Permiso denegado'')
    \<and> (client \<noteq> None \<and> m_attrs = Healthy
         \<and> primary_check_passes (active_attributes db now (userId ctx)) (action ctx)
         \<and> plain_restriction_names (active_attributes db now (userId ctx)) \<longrightarrow>
           policy (fst (checkPermission client ctx)) = Some ''Restriction Policy''
         \<and> (\<exists>found \<in> set (active_attributes db now (userId ctx)).
               category found = ''restriction''
             \<and> snd (checkPermission client ctx)
                 = [decision ctx False (''Blocked by restriction: '' @ name found)]))"
proof -
  define A where "A = active_attributes db now (userId ctx)"
  define R where "R = filter (\<lambda>attr. category attr = ''restriction'') A"
  have "r \<in> set R" using held cat by (simp add: R_def A_def)
  moreover have "restrictionAppliesToAction (name r) (action ctx) = Inr True"
    using entry hit by (rule restriction_applies)
  ultimately have fr: "first_restriction R (action ctx) \<noteq> Inr None"
    by (rule first_restriction_hit)
  have same: "try_checkPermission (Some (createClient db now m_attrs mc m_log)) ctx
        = try_checkPermission (Some (createClient db now m_attrs m_clear m_log)) ctx
      \<and> (\<forall>res. snd (try_checkPermission (Some (createClient db now m_attrs mc m_log)) ctx) = Inr res
             \<longrightarrow> \<not> allowed res)" for mc
  proof (cases "m_attrs = Healthy")
    case False
    then show ?thesis
      by (cases m_attrs) (simp_all add: try_checkPermission_def getUserAttributes_createClient)
  next
    case True
    show ?thesis
    proof (cases "primary_check_passes A (action ctx)")
      case False
      then show ?thesis using True try_missing[of db now ctx] unfolding A_def by simp
    next
      case pass: True
      show ?thesis
      proof (cases "first_restriction R (action ctx)")
        case (Inl e)
        then show ?thesis
          using True pass try_restriction_throws[of db now ctx e] unfolding A_def R_def by simp
      next
        case (Inr found)
        with fr obtain x where "first_restriction R (action ctx) = Inr (Some x)"
          by (cases found) auto
        then show ?thesis
          using True pass try_restricted[of db now ctx x] unfolding A_def R_def by simp
      qed
    qed
  qed
  have deny: "\<not> allowed (fst (checkPermission (Some (createClient db now m_attrs mc m_log)) ctx))" for mc
    using same[of mc] by (auto simp: checkPermission_def split: prod.splits sum.splits)
  have indep: "fst (checkPermission (Some (createClient db now m_attrs m_clear' m_log)) ctx)
        = fst (checkPermission (Some (createClient db now m_attrs m_clear m_log)) ctx)"
    using same[of m_clear'] by (simp add: checkPermission_def)
  have c1: "\<not> allowed (fst (checkPermission client ctx))"
  proof (cases client)
    case None
    then show ?thesis by (simp add: checkPermission_def try_checkPermission_def)
  next
    case (Some sb)
    then show ?thesis using cl deny[of m_clear] by simp
  qed
  have c3: "policy (fst (checkPermission client ctx)) = None
         \<and> startsWith (reason (fst (checkPermission client ctx))) ''Permiso denegado''"
    if "client \<noteq> None" "m_attrs = Healthy" "\<not> primary_check_passes A (action ctx)"
    using that cl try_missing[of db now ctx m_clear m_log]
    by (auto simp: checkPermission_def A_def)
  have c4: "policy (fst (checkPermission client ctx)) = Some ''Restriction Policy''
         \<and> (\<exists>found \<in> set A. category found = ''restriction''
             \<and> snd (checkPermission client ctx)
                 = [decision ctx False (''Blocked by restriction: '' @ name found)])"
    if "client \<noteq> None" "m_attrs = Healthy" "primary_check_passes A (action ctx)"
       "plain_restriction_names A"
  proof -
    have "\<forall>x \<in> set R. name x \<notin> set object_prototype_keys"
      using that(4) by (auto simp: plain_restriction_names_def R_def filter_empty_conv)
    then obtain found where "first_restriction R (action ctx) = Inr found"
      using first_restriction_plain by blast
    with fr obtain x where x: "first_restriction R (action ctx) = Inr (Some x)"
      by (cases found) auto
    then have "x \<in> set R" by (rule first_restriction_member)
    then have "x \<in> set A" "category x = ''restriction''" by (auto simp: R_def)
    then show ?thesis
      using that cl try_restricted[of db now ctx x m_clear m_log] x
      by (auto simp: checkPermission_def A_def R_def)
  qed
  from c3 have c3': "client \<noteq> None \<and> m_attrs = Healthy \<and> \<not> primary_check_passes A (action ctx) \<longrightarrow>
           policy (fst (checkPermission client ctx)) = None
         \<and> startsWith (reason (fst (checkPermission client ctx))) ''Permiso denegado''"
    by (intro impI) (elim conjE)
  from c4 have c4': "client \<noteq> None \<and> m_attrs = Healthy \<and> primary_check_passes A (action ctx)
         \<and> plain_restriction_names A \<longrightarrow>
           policy (fst (checkPermission client ctx)) = Some ''Restriction Policy''
         \<and> (\<exists>found \<in> set A. category found = ''restriction''
             \<and> snd (checkPermission client ctx)
                 = [decision ctx False (''Blocked by restriction: '' @ name found)])"
    by (intro impI) (elim conjE)
  from c1 indep c3' c4' show ?thesis unfolding A_def by (intro conjI)
qed

theorem restriction_overrides_witness:
  "\<lparr> attr_id = ''a-noexport'', name = ''restrict.no_export'', category = ''restriction'',
      level = 1, description = Some ''Sin exportar'' \<rparr>
     \<in> set (active_attributes demo_db 0 ''judge-1'')
   \<and> map_of rules ''restrict.no_export'' = Some [''doc.download'', ''doc.export'']
   \<and> list_ex (\<lambda>blocked. startsWith ''doc.download'' blocked) [''doc.download'', ''doc.export'']
   \<and> primary_check_passes (active_attributes demo_db 0 ''judge-1'') ''doc.download''
   \<and> plain_restriction_names (active_attributes demo_db 0 ''judge-1'')
   \<and> \<not> allowed (fst (checkPermission (Some (createClient demo_db 0 Healthy Healthy Healthy))
          (request ''judge-1'' ''doc.download'' ''case'' (Some [(''classification'', ''public'')]))))
   \<and> policy (fst (checkPermission (Some (createClient demo_db 0 Healthy Healthy Healthy))
          (request ''judge-1'' ''doc.download'' ''case'' (Some [(''classification'', ''public'')]))))
       = Some ''Restriction Policy''
   \<and> fst (checkPermission (Some (createClient demo_db 0 Healthy Throws Healthy))
          (request ''judge-1'' ''doc.download'' ''case'' (Some [(''classification'', ''public'')])))
       = fst (checkPermission (Some (createClient demo_db 0 Healthy Healthy Healthy))
          (request ''judge-1'' ''doc.download'' ''case'' (Some [(''classification'', ''public'')])))
   \<and> \<not> primary_check_passes (active_attributes demo_db 0 ''clerk-1'') ''doc.download''
   \<and> policy (fst (checkPermission (Some (createClient demo_db 0 Healthy Healthy Healthy))
          (request ''clerk-1'' ''doc.download'' ''cases'' None))) = None
   \<and> startsWith (reason (fst (checkPermission (Some (createClient demo_db 0 Healthy Healthy Healthy))
          (request ''clerk-1'' ''doc.download'' ''cases'' None)))) ''Permiso denegado''"
proof -
  let ?r = "\<lparr> attr_id = ''a-noexport'', name = ''restrict.no_export'', category = ''restriction'',
      level = 1, description = Some ''Sin exportar'' \<rparr>"
  let ?ctx = "request ''judge-1'' ''doc.download'' ''case'' (Some [(''classification'', ''public'')])"
  let ?ctx2 = "request ''clerk-1'' ''doc.download'' ''cases'' None"
  let ?client = "Some (createClient demo_db 0 Healthy Healthy Healthy)"
  have attrs: "active_attributes demo_db 0 ''judge-1'' =
      [\<lparr> attr_id = ''a-download'', name = ''doc.download'', category = ''permission'',
          level = 1, description = Some ''Descargar documentos'' \<rparr>,
       ?r,
       \<lparr> attr_id = ''a-l4'', name = ''clearance.L4.top_secret'', category = ''authorization'',
          level = 4, description = None \<rparr>]"
    by (simp add: active_attributes_def active_grants_def is_active_def
          embed_attribute_def demo_db_def demo_catalog_def List.map_filter_simps)
  have attrs2: "active_attributes demo_db 0 ''clerk-1'' = [?r]"
    by (simp add: active_attributes_def active_grants_def is_active_def
          embed_attribute_def demo_db_def demo_catalog_def List.map_filter_simps)
  have held: "?r \<in> set (active_attributes demo_db 0 (userId ?ctx))"
    and held2: "?r \<in> set (active_attributes demo_db 0 (userId ?ctx2))"
    by (simp_all add: attrs attrs2 request_def)
  have cat: "category ?r = ''restriction''" by simp
  have entry: "map_of rules (name ?r) = Some [''doc.download'', ''doc.export'']"
    by (simp add: rules_def)
  have hit: "list_ex (\<lambda>blocked. startsWith (action ?ctx) blocked) [''doc.download'', ''doc.export'']"
    and hit2: "list_ex (\<lambda>blocked. startsWith (action ?ctx2) blocked) [''doc.download'', ''doc.export'']"
    by (simp_all add: request_def)
  have cl: "?client = None \<or> ?client = Some (createClient demo_db 0 Healthy Healthy Healthy)"
    by simp
  have req: "mapActionToAttribute ''doc.download'' = Own ''doc.download''"
    by (simp add: mapActionToAttribute_def js_get_def mapping_def)
  have pass: "primary_check_passes (active_attributes demo_db 0 (userId ?ctx)) (action ?ctx)"
    by (simp add: attrs request_def primary_check_passes_def req)
  have fail: "\<not> primary_check_passes (active_attributes demo_db 0 (userId ?ctx2)) (action ?ctx2)"
    by (simp add: attrs2 request_def primary_check_passes_def req)
  have plain: "plain_restriction_names (active_attributes demo_db 0 (userId ?ctx))"
    by (simp add: attrs request_def plain_restriction_names_def object_prototype_keys_def)
  from restriction_overrides[OF held cat entry hit cl, of Throws] pass plain
  have one: "\<not> allowed (fst (checkPermission ?client ?ctx))
     \<and> policy (fst (checkPermission ?client ?ctx)) = Some ''Restriction Policy''
     \<and> fst (checkPermission (Some (createClient demo_db 0 Healthy Throws Healthy)) ?ctx)
         = fst (checkPermission ?client ?ctx)"
    by simp
  from restriction_overrides[OF held2 cat entry hit2 cl, of Healthy] fail
  have two: "policy (fst (checkPermission ?client ?ctx2)) = None
     \<and> startsWith (reason (fst (checkPermission ?client ?ctx2))) ''Permiso denegado''"
    by simp
  from one two held entry hit pass fail plain show ?thesis by (simp add: request_def)
qed

lemma Math_max_eq: "Math_max x xs = Max (set (x # xs))"
  unfolding Math_max_def by (rule Max.set_eq_fold[symmetric])

lemma requiredLevels_eq: "requiredLevels = CLASSIFICATION_LEVELS"
  by (simp add: requiredLevels_def CLASSIFICATION_LEVELS_def)

lemma checkClearanceLevel_healthy:
  assumes "map_of CLASSIFICATION_LEVELS classification = Some requiredLevel"
  shows "checkClearanceLevel uid classification (createClient db now m_attrs Healthy m_log)
     = Inr (if query_clearance_names db now uid = [] then classification = ''public''
            else requiredLevel \<le> clearanceLevel (query_clearance_names db now uid))"
proof (cases "query_clearance_names db now uid")
  case Nil
  then show ?thesis by (simp add: checkClearanceLevel_def createClient_def respond_def)
next
  case (Cons n ns)
  have "js_get requiredLevels classification = Own requiredLevel"
    using assms by (simp add: js_get_def requiredLevels_eq)
  then show ?thesis using Cons
    by (simp add: checkClearanceLevel_def createClient_def respond_def Math_max_eq
          clearanceLevel_def)
qed

lemma level_of_canonical_names:
  "level_of_name ''clearance.L1.public'' = 1"
  "level_of_name ''clearance.L2.confidential'' = 2"
  "level_of_name ''clearance.L3.secret'' = 3"
  "level_of_name ''clearance.L4.top_secret'' = 4"
  by (simp_all add: level_of_name_def)

section \<open>Clearance\<close>



text \<open>
  A grant is active strictly before its expiry: at the time 500 the judge's export
  restriction, which expires at 500, no longer blocks the download, and the fourth tier
  passes for a top-secret case.
\<close>

lemma expired_restriction_lapses:
  "active_attributes demo_db 500 ''judge-1'' =
      [\<lparr> attr_id = ''a-download'', name = ''doc.download'', category = ''permission'',
          level = 1, description = Some ''Descargar documentos'' \<rparr>,
       \<lparr> attr_id = ''a-l4'', name = ''clearance.L4.top_secret'', category = ''authorization'',
          level = 4, description = None \<rparr>]
   \<and> allowed (fst (checkPermission (Some (createClient demo_db 500 Healthy Healthy Healthy))
          (request ''judge-1'' ''doc.download'' ''case'' (Some [(''classification'', ''top_secret'')]))))"
proof -
  let ?ctx = "request ''judge-1'' ''doc.download'' ''case'' (Some [(''classification'', ''top_secret'')])"
  have attrs: "active_attributes demo_db 500 ''judge-1'' =
      [\<lparr> attr_id = ''a-download'', name = ''doc.download'', category = ''permission'',
          level = 1, description = Some ''Descargar documentos'' \<rparr>,
       \<lparr> attr_id = ''a-l4'', name = ''clearance.L4.top_secret'', category = ''authorization'',
          level = 4, description = None \<rparr>]"
    by (simp add: active_attributes_def active_grants_def is_active_def
          embed_attribute_def demo_db_def demo_catalog_def List.map_filter_simps)
  have pass: "primary_check_passes (active_attributes demo_db 500 (userId ?ctx)) (action ?ctx)"
    by (simp add: attrs request_def primary_check_passes_def mapActionToAttribute_def js_get_def
          mapping_def)
  have free: "first_restriction (filter (\<lambda>attr. category attr = ''restriction'')
      (active_attributes demo_db 500 (userId ?ctx))) (action ?ctx) = Inr None"
    by (simp add: request_def attrs)
  have names: "query_clearance_names demo_db 500 ''judge-1'' = [''clearance.L4.top_secret'']"
    by (simp add: query_clearance_names_def active_grants_def is_active_def
          embed_attribute_def demo_db_def demo_catalog_def List.map_filter_simps)
  have lvl: "clearanceLevel [''clearance.L4.top_secret''] = 4"
    by (simp add: clearanceLevel_def level_of_name_def)
  have top: "map_of CLASSIFICATION_LEVELS ''top_secret'' = Some 4"
    by (simp add: CLASSIFICATION_LEVELS_def)
  have "checkClearanceLevel ''judge-1'' ''top_secret'' (createClient demo_db 500 Healthy Healthy Healthy)
      = Inr True"
    using checkClearanceLevel_healthy[OF top, of "''judge-1''" demo_db 500 Healthy Healthy]
    by (simp add: names lvl)
  then have "allowed (fst (checkPermission (Some (createClient demo_db 500 Healthy Healthy Healthy)) ?ctx))"
    using try_unrestricted[OF pass free, of Healthy Healthy]
    by (simp add: checkPermission_def request_def classification_of_def)
  with attrs show ?thesis by simp
qed

section \<open>Unmapped actions\<close>

text \<open>
  An action for which the lookup in \<open>mapping\<close> finds nothing, own or inherited, needs no
  attribute: a subject without grants is allowed.
\<close>

lemma default_allow_unmapped:
  assumes "mapActionToAttribute (action ctx) = Undefined"
    and "active_attributes db now (userId ctx) = []"
    and "resourceType ctx \<noteq> ''case'' \<or> classification_of ctx = None"
  shows "checkPermission (Some (createClient db now Healthy m_clear m_log)) ctx =
     (\<lparr> allowed = True, reason = ''Acceso permitido'', policy = None,
        attributesChecked = Some [] \<rparr>,
      [decision ctx True ''All checks passed''])"
proof -
  have pass: "primary_check_passes (active_attributes db now (userId ctx)) (action ctx)"
    using assms(1) by (simp add: primary_check_passes_def)
  have free: "first_restriction
           (filter (\<lambda>attr. category attr = ''restriction'') (active_attributes db now (userId ctx)))
           (action ctx) = Inr None"
    using assms(2) by simp
  show ?thesis using assms(2,3)
    by (auto simp: checkPermission_def try_unrestricted[OF pass free])
qed

lemma mapActionToAttribute_Undefined_iff:
  "mapActionToAttribute a = Undefined \<longleftrightarrow>
     map_of mapping a = None \<and> a \<notin> set object_prototype_keys"
  by (simp add: mapActionToAttribute_def js_get_def split: option.splits)

text \<open>
  Claim C10. The action \<^verbatim>\<open>constructor\<close> has no entry in the table \<open>mapping\<close>, yet the
  lookup finds the function every object inherits, no attribute name equals it, and a
  subject without grants is denied for a missing attribute.
\<close>

theorem inherited_action_denied:
  "map_of mapping ''constructor'' = None
   \<and> active_attributes demo_db 0 ''visitor'' = []
   \<and> mapActionToAttribute ''constructor'' = Inherited ''constructor''
   \<and> checkPermission (Some (createClient demo_db 0 Healthy Healthy Healthy))
        (request ''visitor'' ''constructor'' ''cases'' None)
      = (\<lparr> allowed = False,
           reason = ''Permiso denegado: requiere atributo '' @ quote
                      @ ''function Object() { [native code] }'' @ quote,
           policy = None,
           attributesChecked = Some [''function Object() { [native code] }''] \<rparr>,
         [decision (request ''visitor'' ''constructor'' ''cases'' None) False
            ''Missing required attribute: function Object() { [native code] }''])"
proof -
  let ?ctx = "request ''visitor'' ''constructor'' ''cases'' None"
  have none: "map_of mapping ''constructor'' = None" by (simp add: mapping_def)
  have attrs: "active_attributes demo_db 0 ''visitor'' = []"
    by (simp add: active_attributes_def active_grants_def demo_db_def List.map_filter_simps)
  have inh: "mapActionToAttribute ''constructor'' = Inherited ''constructor''"
    by (simp add: mapActionToAttribute_def js_get_def none object_prototype_keys_def)
  have "\<not> primary_check_passes (active_attributes demo_db 0 (userId ?ctx)) (action ?ctx)"
    by (simp add: request_def primary_check_passes_def inh)
  from try_missing[OF this, of Healthy Healthy] none attrs inh show ?thesis
    by (simp add: checkPermission_def request_def js_to_string_def)
qed

section \<open>Failures of the store\<close>

text \<open>
  When the client cannot be created or the attribute read fails, the result is the
  system-error denial and nothing is inserted.
\<close>

lemma denied_when_attribute_read_fails:
  assumes "client = None \<or> (client = Some (createClient db now m_attrs m_clear m_log) \<and> m_attrs \<noteq> Healthy)"
  shows "checkPermission client ctx = (system_denial, [])"
proof (cases client)
  case None
  then show ?thesis by (simp add: checkPermission_def try_checkPermission_def system_denial_def)
next
  case (Some sb)
  with assms have "m_attrs \<noteq> Healthy" and sb: "client = Some (createClient db now m_attrs m_clear m_log)"
    by auto
  from try_attribute_read_fails[OF this(1), of db now m_clear m_log ctx] sb show ?thesis
    by (auto simp: checkPermission_def system_denial_def)
qed

text \<open>
  Claim C1. The clearance read returns an error object for a request on a case classified
  \<^verbatim>\<open>public\<close>: \<^verbatim>\<open>checkClearanceLevel\<close> does not look at the error, answers as for a
  subject without clearance, and \<^verbatim>\<open>checkPermission\<close> returns \<open>allowed = True\<close>. For the
  judge whose clearance has no tier, the working store denies the same request.
\<close>

theorem clearance_error_allows:
  "select_clearance_names (createClient demo_db 0 Healthy ReturnsError Healthy) ''visitor''
      = Response None (Some ''store error'')
   \<and> checkClearanceLevel ''visitor'' ''public'' (createClient demo_db 0 Healthy ReturnsError Healthy)
      = Inr True
   \<and> checkPermission (Some (createClient demo_db 0 Healthy ReturnsError Healthy))
        (request ''visitor'' ''case.details.view'' ''case'' (Some [(''classification'', ''public'')]))
      = (\<lparr> allowed = True, reason = ''Acceso permitido'', policy = None,
           attributesChecked = Some [] \<rparr>,
         [decision (request ''visitor'' ''case.details.view'' ''case''
                      (Some [(''classification'', ''public'')])) True ''All checks passed''])
   \<and> allowed (fst (checkPermission (Some (createClient demo_db 0 Healthy ReturnsError Healthy))
        (request ''judge-3'' ''case.details.view'' ''case'' (Some [(''classification'', ''public'')]))))
   \<and> \<not> allowed (fst (checkPermission (Some (createClient demo_db 0 Healthy Healthy Healthy))
        (request ''judge-3'' ''case.details.view'' ''case'' (Some [(''classification'', ''public'')]))))"
proof -
  let ?ctx = "request ''visitor'' ''case.details.view'' ''case'' (Some [(''classification'', ''public'')])"
  let ?ctx3 = "request ''judge-3'' ''case.details.view'' ''case'' (Some [(''classification'', ''public'')])"
  have attrs: "active_attributes demo_db 0 ''visitor'' = []"
    by (simp add: active_attributes_def active_grants_def demo_db_def List.map_filter_simps)
  have attrs3: "active_attributes demo_db 0 ''judge-3'' =
      [\<lparr> attr_id = ''a-susp'', name = ''clearance.suspended'', category = ''authorization'',
          level = 0, description = None \<rparr>]"
    by (simp add: active_attributes_def active_grants_def is_active_def embed_attribute_def
          demo_db_def demo_catalog_def List.map_filter_simps)
  have unmapped: "mapActionToAttribute ''case.details.view'' = Undefined"
    by (simp add: mapActionToAttribute_def js_get_def mapping_def object_prototype_keys_def)
  have pass: "primary_check_passes (active_attributes demo_db 0 (userId ?ctx)) (action ?ctx)"
    and pass3: "primary_check_passes (active_attributes demo_db 0 (userId ?ctx3)) (action ?ctx3)"
    by (simp_all add: request_def primary_check_passes_def unmapped)
  have free: "first_restriction (filter (\<lambda>attr. category attr = ''restriction'')
      (active_attributes demo_db 0 (userId ?ctx))) (action ?ctx) = Inr None"
    by (simp add: request_def attrs)
  have free3: "first_restriction (filter (\<lambda>attr. category attr = ''restriction'')
      (active_attributes demo_db 0 (userId ?ctx3))) (action ?ctx3) = Inr None"
    by (simp add: request_def attrs3)
  have resp: "select_clearance_names (createClient demo_db 0 Healthy ReturnsError Healthy) uid
      = Response None (Some ''store error'')" for uid
    by (simp add: createClient_def respond_def)
  have chk: "checkClearanceLevel uid ''public'' (createClient demo_db 0 Healthy ReturnsError Healthy)
      = Inr True" for uid
    by (simp add: checkClearanceLevel_def resp)
  have names3: "query_clearance_names demo_db 0 ''judge-3'' = [''clearance.suspended'']"
    by (simp add: query_clearance_names_def active_grants_def is_active_def embed_attribute_def
          demo_db_def demo_catalog_def List.map_filter_simps)
  have chk3: "checkClearanceLevel ''judge-3'' ''public'' (createClient demo_db 0 Healthy Healthy Healthy)
      = Inr False"
    by (simp add: checkClearanceLevel_def createClient_def respond_def names3 js_get_def
          requiredLevels_def Math_max_def level_of_name_def)
  have visitor: "checkPermission (Some (createClient demo_db 0 Healthy ReturnsError Healthy)) ?ctx
      = (\<lparr> allowed = True, reason = ''Acceso permitido'', policy = None,
           attributesChecked = Some [] \<rparr>,
         [decision ?ctx True ''All checks passed''])"
    using try_unrestricted[OF pass free, of ReturnsError Healthy] chk attrs
    by (simp add: checkPermission_def request_def classification_of_def)
  have flipped: "allowed (fst (checkPermission
      (Some (createClient demo_db 0 Healthy ReturnsError Healthy)) ?ctx3))"
    using try_unrestricted[OF pass3 free3, of ReturnsError Healthy] chk
    by (simp add: checkPermission_def request_def classification_of_def)
  have healthy: "\<not> allowed (fst (checkPermission
      (Some (createClient demo_db 0 Healthy Healthy Healthy)) ?ctx3))"
    using try_unrestricted[OF pass3 free3, of Healthy Healthy] chk3
    by (simp add: checkPermission_def request_def classification_of_def)
  from resp chk visitor flipped healthy show ?thesis by simp
qed

section \<open>The audit trail of an evaluation\<close>

lemma logDecision_issues: "logDecision ctx ok why sb issued = issued @ [decision ctx ok why]"
  by (cases "insert_policy_enforcement_log sb (decision ctx ok why)")
     (simp_all add: logDecision_def)

lemma persisted_createClient:
  "persisted (createClient db now m_attrs m_clear m_log) issued
     = (if m_log = Healthy then issued else [])"
  by (cases m_log) (simp_all add: persisted_def createClient_def)

lemma getUserAttributes_insert_irrelevant:
  "getUserAttributes uid (sb\<lparr>insert_policy_enforcement_log := ins\<rparr>) = getUserAttributes uid sb"
  by (simp add: getUserAttributes_def)

lemma checkClearanceLevel_insert_irrelevant:
  "checkClearanceLevel uid c (sb\<lparr>insert_policy_enforcement_log := ins\<rparr>)
     = checkClearanceLevel uid c sb"
  by (simp add: checkClearanceLevel_def)

lemma try_checkPermission_insert_irrelevant:
  "try_checkPermission (Some (sb\<lparr>insert_policy_enforcement_log := ins\<rparr>)) ctx
     = try_checkPermission (Some sb) ctx"
  by (simp add: try_checkPermission_def logDecision_issues getUserAttributes_insert_irrelevant
        checkClearanceLevel_insert_irrelevant Let_def
        cong: sum.case_cong option.case_cong bool.case_cong if_cong)

lemma try_checkPermission_shape:
  "(\<exists>e. try_checkPermission client ctx = ([], Inl e))
   \<or> (\<exists>res why. try_checkPermission client ctx = ([decision ctx (allowed res) why], Inr res))"
  unfolding try_checkPermission_def logDecision_issues Let_def
  by (auto split: option.splits sum.splits bool.splits)

lemma checkClearanceLevel_answers:
  assumes "m_clear \<noteq> Throws"
  shows "\<exists>ok. checkClearanceLevel uid c (createClient db now m_attrs m_clear m_log) = Inr ok"
  using assms
  by (cases m_clear; cases "query_clearance_names db now uid"; cases "js_get requiredLevels c")
     (auto simp: checkClearanceLevel_def createClient_def respond_def)

lemma completes_when_store_answers:
  assumes plain: "plain_restriction_names (active_attributes db now (userId ctx))"
    and clear: "m_clear \<noteq> Throws"
  shows "completes (Some (createClient db now Healthy m_clear m_log)) ctx"
proof (cases "primary_check_passes (active_attributes db now (userId ctx)) (action ctx)")
  case False
  then show ?thesis using try_missing[of db now ctx m_clear m_log] by (simp add: completes_def)
next
  case pass: True
  let ?R = "filter (\<lambda>attr. category attr = ''restriction'') (active_attributes db now (userId ctx))"
  have "\<forall>x \<in> set ?R. name x \<notin> set object_prototype_keys"
    using plain by (auto simp: plain_restriction_names_def filter_empty_conv)
  then obtain found where found: "first_restriction ?R (action ctx) = Inr found"
    using first_restriction_plain by blast
  show ?thesis
  proof (cases found)
    case (Some x)
    with found show ?thesis
      using try_restricted[OF pass, of x m_clear m_log] by (simp add: completes_def)
  next
    case None
    with found have free: "first_restriction ?R (action ctx) = Inr None" by simp
    show ?thesis
    proof (cases "if resourceType ctx = ''case'' then classification_of ctx else None")
      case None
      then show ?thesis
        using try_unrestricted[OF pass free, of m_clear m_log] by (simp add: completes_def)
    next
      case (Some c)
      obtain ok where "checkClearanceLevel (userId ctx) c (createClient db now Healthy m_clear m_log) = Inr ok"
        using checkClearanceLevel_answers[OF clear] by blast
      with Some show ?thesis
        using try_unrestricted[OF pass free, of m_clear m_log]
        by (cases ok) (simp_all add: completes_def)
    qed
  qed
qed

text \<open>
  Claim C7, as the code has it. An evaluation that leaves the \<^verbatim>\<open>try\<close> block by a
  \<^verbatim>\<open>return\<close>, allowing or denying, has issued exactly one insert, of a decision for the
  request with the result returned. An evaluation that ends in the \<^verbatim>\<open>catch\<close> block
  returns the system-error denial and has issued none. How the insert ends (it may work,
  return an error or throw) changes neither the result nor the inserts issued. And an
  evaluation does leave the block by a \<^verbatim>\<open>return\<close> when the attribute read works, the
  clearance read does not throw and no restriction of the subject has an inherited name.
\<close>

theorem evaluation_issues_one_decision:
  "(completes client ctx \<longrightarrow>
      (\<exists>why. snd (checkPermission client ctx)
               = [decision ctx (allowed (fst (checkPermission client ctx))) why]))
   \<and> (\<not> completes client ctx \<longrightarrow> checkPermission client ctx = (system_denial, []))
   \<and> checkPermission (Some (sb\<lparr>insert_policy_enforcement_log := ins\<rparr>)) ctx
       = checkPermission (Some sb) ctx
   \<and> (plain_restriction_names (active_attributes db now (userId ctx)) \<and> m_clear \<noteq> Throws \<longrightarrow>
        completes (Some (createClient db now Healthy m_clear m_log)) ctx)"
proof -
  from try_checkPermission_shape[of client ctx]
  have "(completes client ctx \<longrightarrow>
      (\<exists>why. snd (checkPermission client ctx)
               = [decision ctx (allowed (fst (checkPermission client ctx))) why]))
   \<and> (\<not> completes client ctx \<longrightarrow> checkPermission client ctx = (system_denial, []))"
    by (auto simp: completes_def checkPermission_def system_denial_def)
  moreover have "checkPermission (Some (sb\<lparr>insert_policy_enforcement_log := ins\<rparr>)) ctx
       = checkPermission (Some sb) ctx"
    by (simp add: checkPermission_def try_checkPermission_insert_irrelevant)
  moreover have "plain_restriction_names (active_attributes db now (userId ctx)) \<and> m_clear \<noteq> Throws \<longrightarrow>
        completes (Some (createClient db now Healthy m_clear m_log)) ctx"
    using completes_when_store_answers by blast
  ultimately show ?thesis by simp
qed

theorem evaluation_issues_one_decision_witness:
  "plain_restriction_names (active_attributes demo_db 0 ''secretary-1'')
   \<and> completes (Some (createClient demo_db 0 Healthy Healthy Throws))
       (request ''secretary-1'' ''case.create'' ''cases'' None)
   \<and> checkPermission (Some (createClient demo_db 0 Healthy Healthy Throws))
       (request ''secretary-1'' ''case.create'' ''cases'' None)
     = (\<lparr> allowed = True, reason = ''Acceso permitido'', policy = None,
          attributesChecked = Some [''case.create''] \<rparr>,
        [decision (request ''secretary-1'' ''case.create'' ''cases'' None) True ''All checks passed''])
   \<and> \<not> completes (Some (createClient demo_db 0 Throws Healthy Healthy))
       (request ''secretary-1'' ''case.create'' ''cases'' None)
   \<and> checkPermission (Some (createClient demo_db 0 Throws Healthy Healthy))
       (request ''secretary-1'' ''case.create'' ''cases'' None) = (system_denial, [])"
proof -
  let ?ctx = "request ''secretary-1'' ''case.create'' ''cases'' None"
  let ?ok = "Some (createClient demo_db 0 Healthy Healthy Throws)"
  let ?bad = "Some (createClient demo_db 0 Throws Healthy Healthy)"
  have attrs: "active_attributes demo_db 0 ''secretary-1'' =
      [\<lparr> attr_id = ''a-create'', name = ''case.create'', category = ''permission'',
          level = 1, description = Some ''Crear casos'' \<rparr>]"
    by (simp add: active_attributes_def active_grants_def is_active_def
          embed_attribute_def demo_db_def demo_catalog_def List.map_filter_simps)
  have plain: "plain_restriction_names (active_attributes demo_db 0 (userId ?ctx))"
    by (simp add: request_def attrs plain_restriction_names_def)
  have answers: "Healthy \<noteq> Throws" by simp
  note facts = evaluation_issues_one_decision[of _ ?ctx _ _ demo_db 0 Healthy Throws]
  from facts[of ?ok] plain answers have ok: "completes ?ok ?ctx" by blast
  have pass: "primary_check_passes (active_attributes demo_db 0 (userId ?ctx)) (action ?ctx)"
    by (simp add: request_def attrs primary_check_passes_def mapActionToAttribute_def js_get_def
          mapping_def)
  have free: "first_restriction (filter (\<lambda>attr. category attr = ''restriction'')
      (active_attributes demo_db 0 (userId ?ctx))) (action ?ctx) = Inr None"
    by (simp add: request_def attrs)
  have run: "try_checkPermission ?ok ?ctx =
      ([decision ?ctx True ''All checks passed''],
       Inr \<lparr> allowed = True, reason = ''Acceso permitido'', policy = None,
             attributesChecked = Some [''case.create''] \<rparr>)"
    using try_unrestricted[OF pass free, of Healthy Throws]
    by (simp add: request_def attrs)
  have res: "checkPermission ?ok ?ctx =
      (\<lparr> allowed = True, reason = ''Acceso permitido'', policy = None,
         attributesChecked = Some [''case.create''] \<rparr>,
       [decision ?ctx True ''All checks passed''])"
    by (simp add: checkPermission_def run)
  have bad: "\<not> completes ?bad ?ctx"
    by (simp add: completes_def try_checkPermission_def getUserAttributes_createClient)
  from facts[of ?bad] bad
  have denial: "checkPermission ?bad ?ctx = (system_denial, [])" by blast
  from facts[of ?ok] ok
  have "\<exists>why. snd (checkPermission ?ok ?ctx)
          = [decision ?ctx (allowed (fst (checkPermission ?ok ?ctx))) why]" by blast
  with plain ok bad res denial show ?thesis by (simp add: request_def)
qed

text \<open>
  Claim C7 as stated fails: when the attribute read returns an error, the call denies and
  issues no insert at all.
\<close>

theorem failed_read_issues_no_decision:
  "checkPermission (Some (createClient demo_db 0 ReturnsError Healthy Healthy))
     (request ''secretary-1'' ''case.create'' ''cases'' None) = (system_denial, [])
   \<and> length (snd (checkPermission (Some (createClient demo_db 0 ReturnsError Healthy Healthy))
     (request ''secretary-1'' ''case.create'' ''cases'' None))) \<noteq> 1"
proof -
  have "checkPermission (Some (createClient demo_db 0 ReturnsError Healthy Healthy))
     (request ''secretary-1'' ''case.create'' ''cases'' None) = (system_denial, [])"
    by (rule denied_when_attribute_read_fails[of _ demo_db 0 ReturnsError Healthy Healthy]) simp
  then show ?thesis by simp
qed

section \<open>Grants of the auditor\<close>

lemma case_prefix_not_audit: "startsWith n ''case.'' \<Longrightarrow> n \<noteq> ''audit.cases.stats''"
  by auto

lemma trigger_rejects_iff:
  "(\<exists>e. check_admin_no_vault_access db new = Inl e) = forbidden_grant db new"
  using case_prefix_not_audit
  by (auto simp: check_admin_no_vault_access_def forbidden_grant_def
        denotes_forbidden_capability_def split: option.splits)

lemma trigger_passes:
  assumes "check_admin_no_vault_access db new = Inr row"
  shows "row = new \<and> \<not> forbidden_grant db new"
proof -
  have "row = new" using assms
    by (auto simp: check_admin_no_vault_access_def split: option.splits if_splits)
  moreover have "\<not> forbidden_grant db new"
    using assms trigger_rejects_iff[of db new] by auto
  ultimately show ?thesis by simp
qed

lemma forbidden_grant_frame:
  "forbidden_grant (db\<lparr>user_attributes := rows\<rparr>) r = forbidden_grant db r"
  by (simp add: forbidden_grant_def embed_attribute_def)

lemma auditor_invariant_iff:
  "auditor_invariant db \<longleftrightarrow> (\<forall>r \<in> set (user_attributes db). \<not> forbidden_grant db r)"
  by (simp add: auditor_invariant_def filter_empty_conv)

lemma apply_grant_op_preserves:
  assumes "auditor_invariant db" and "apply_grant_op db op = Inr db'"
  shows "auditor_invariant db'"
proof (cases op)
  case (InsertGrant new)
  with assms(2) obtain row where ok: "check_admin_no_vault_access db new = Inr row"
    and db': "db' = db\<lparr>user_attributes := user_attributes db @ [row]\<rparr>"
    by (auto simp: apply_grant_op_def split: sum.splits)
  from trigger_passes[OF ok] assms(1) show ?thesis
    by (auto simp: db' auditor_invariant_iff forbidden_grant_frame)
next
  case (UpdateGrant i new)
  show ?thesis
  proof (cases "i < length (user_attributes db)")
    case False
    with assms UpdateGrant show ?thesis by (simp add: apply_grant_op_def)
  next
    case True
    with assms(2) UpdateGrant obtain row where ok: "check_admin_no_vault_access db new = Inr row"
      and db': "db' = db\<lparr>user_attributes := (user_attributes db)[i := row]\<rparr>"
      by (auto simp: apply_grant_op_def split: sum.splits)
    have "set ((user_attributes db)[i := row]) \<subseteq> insert row (set (user_attributes db))"
      by (rule set_update_subset_insert)
    with trigger_passes[OF ok] assms(1) show ?thesis
      by (auto simp: db' auditor_invariant_iff forbidden_grant_frame)
  qed
next
  case (DeleteGrant i)
  with assms(2) have db': "db' = db\<lparr>user_attributes :=
      take i (user_attributes db) @ drop (Suc i) (user_attributes db)\<rparr>"
    by (simp add: apply_grant_op_def)
  have "set (take i (user_attributes db) @ drop (Suc i) (user_attributes db))
          \<subseteq> set (user_attributes db)"
    using set_take_subset set_drop_subset by fastforce
  with assms(1) show ?thesis
    by (auto simp: db' auditor_invariant_iff forbidden_grant_frame)
qed

lemma apply_grant_ops_preserves:
  "auditor_invariant db \<Longrightarrow> auditor_invariant (apply_grant_ops db ops)"
proof (induction ops arbitrary: db)
  case Nil
  then show ?case by simp
next
  case (Cons op ops)
  show ?case
  proof (cases "apply_grant_op db op")
    case (Inl e)
    then show ?thesis using Cons by simp
  next
    case (Inr db')
    with Cons.prems have "auditor_invariant db'" by (rule apply_grant_op_preserves)
    then show ?thesis using Inr Cons.IH by simp
  qed
qed

text \<open>
  Claim C2, as the code has it. The trigger raises on a row exactly when the row is a grant,
  to a subject whose role is the auditor's, of an attribute whose name denotes vault-reveal,
  user-management or case-content capabilities; the insert or update of such a grant is
  refused; and from a database in which no auditor holds such a grant, no sequence of
  inserts, updates and deletes of grants reaches one in which an auditor does (roles and
  catalog unchanged).
\<close>

theorem grant_time_enforcement:
  "(\<exists>e. check_admin_no_vault_access db new = Inl e) = forbidden_grant db new
   \<and> (forbidden_grant db new \<longrightarrow>
        (\<exists>e. apply_grant_op db (InsertGrant new) = Inl e)
      \<and> (i < length (user_attributes db) \<longrightarrow> (\<exists>e. apply_grant_op db (UpdateGrant i new) = Inl e)))
   \<and> (auditor_invariant db \<longrightarrow> auditor_invariant (apply_grant_ops db ops))"
proof -
  have "\<exists>e. apply_grant_op db (InsertGrant new) = Inl e" if "forbidden_grant db new"
    using that trigger_rejects_iff[of db new] by (auto simp: apply_grant_op_def)
  moreover have "\<exists>e. apply_grant_op db (UpdateGrant i new) = Inl e"
    if "forbidden_grant db new" "i < length (user_attributes db)"
    using that trigger_rejects_iff[of db new] by (auto simp: apply_grant_op_def)
  ultimately show ?thesis
    using trigger_rejects_iff[of db new] apply_grant_ops_preserves[of db ops] by blast
qed

lemma demo_db_invariant: "auditor_invariant demo_db"
  by (simp add: auditor_invariant_def forbidden_grant_def embed_attribute_def
        denotes_forbidden_capability_def demo_db_def demo_catalog_def)

theorem grant_time_enforcement_witness:
  "forbidden_grant demo_db
     \<lparr> ua_user_id = ''auditor-1'', ua_attribute_id = ''a-create'', ua_expires_at = None \<rparr>
   \<and> (\<exists>e. apply_grant_op demo_db (InsertGrant
        \<lparr> ua_user_id = ''auditor-1'', ua_attribute_id = ''a-create'', ua_expires_at = None \<rparr>) = Inl e)
   \<and> (\<exists>e. apply_grant_op demo_db (UpdateGrant 5
        \<lparr> ua_user_id = ''auditor-1'', ua_attribute_id = ''a-create'', ua_expires_at = None \<rparr>) = Inl e)
   \<and> auditor_invariant demo_db
   \<and> auditor_invariant (apply_grant_ops demo_db
        [InsertGrant \<lparr> ua_user_id = ''auditor-1'', ua_attribute_id = ''a-create'', ua_expires_at = None \<rparr>,
         InsertGrant \<lparr> ua_user_id = ''secretary-1'', ua_attribute_id = ''a-download'', ua_expires_at = None \<rparr>,
         DeleteGrant 0])"
proof -
  let ?bad = "\<lparr> ua_user_id = ''auditor-1'', ua_attribute_id = ''a-create'', ua_expires_at = None \<rparr>"
  let ?ops = "[InsertGrant ?bad,
         InsertGrant \<lparr> ua_user_id = ''secretary-1'', ua_attribute_id = ''a-download'', ua_expires_at = None \<rparr>,
         DeleteGrant 0]"
  have bad: "forbidden_grant demo_db ?bad"
    by (simp add: forbidden_grant_def embed_attribute_def denotes_forbidden_capability_def
          demo_db_def demo_catalog_def)
  have len: "5 < length (user_attributes demo_db)" by (simp add: demo_db_def)
  from grant_time_enforcement[of demo_db ?bad 5 ?ops] bad len demo_db_invariant
  show ?thesis by blast
qed

text \<open>
  Claim C2 as stated fails in its last part: the evaluator never reads a role. If a forbidden
  grant exists, the auditor is allowed the action it maps to.
\<close>

theorem evaluator_allows_forbidden_grant:
  "map_of (users_profile tampered_db) ''auditor-1'' = Some ''admin''
   \<and> forbidden_grant tampered_db
       \<lparr> ua_user_id = ''auditor-1'', ua_attribute_id = ''a-create'', ua_expires_at = None \<rparr>
   \<and> \<lparr> ua_user_id = ''auditor-1'', ua_attribute_id = ''a-create'', ua_expires_at = None \<rparr>
       \<in> set (user_attributes tampered_db)
   \<and> allowed (fst (checkPermission (Some (createClient tampered_db 0 Healthy Healthy Healthy))
        (request ''auditor-1'' ''case.create'' ''cases'' None)))"
proof -
  let ?ctx = "request ''auditor-1'' ''case.create'' ''cases'' None"
  have attrs: "active_attributes tampered_db 0 ''auditor-1'' =
      [\<lparr> attr_id = ''a-create'', name = ''case.create'', category = ''permission'',
          level = 1, description = Some ''Crear casos'' \<rparr>,
       \<lparr> attr_id = ''a-logs'', name = ''audit.logs.view'', category = ''permission'',
          level = 3, description = None \<rparr>]"
    by (simp add: active_attributes_def active_grants_def is_active_def embed_attribute_def
          tampered_db_def demo_db_def demo_catalog_def List.map_filter_simps)
  have pass: "primary_check_passes (active_attributes tampered_db 0 (userId ?ctx)) (action ?ctx)"
    by (simp add: request_def attrs primary_check_passes_def mapActionToAttribute_def js_get_def
          mapping_def)
  have free: "first_restriction (filter (\<lambda>attr. category attr = ''restriction'')
      (active_attributes tampered_db 0 (userId ?ctx))) (action ?ctx) = Inr None"
    by (simp add: request_def attrs)
  have "allowed (fst (checkPermission (Some (createClient tampered_db 0 Healthy Healthy Healthy)) ?ctx))"
    using try_unrestricted[OF pass free, of Healthy Healthy]
    by (simp add: checkPermission_def request_def)
  moreover have "forbidden_grant tampered_db
       \<lparr> ua_user_id = ''auditor-1'', ua_attribute_id = ''a-create'', ua_expires_at = None \<rparr>"
    by (simp add: forbidden_grant_def embed_attribute_def denotes_forbidden_capability_def
          tampered_db_def demo_db_def demo_catalog_def)
  moreover have "map_of (users_profile tampered_db) ''auditor-1'' = Some ''admin''"
    by (simp add: tampered_db_def demo_db_def)
  ultimately show ?thesis by (simp add: tampered_db_def)
qed

section \<open>The fixed window of the rate limiter\<close>

lemma checkRateLimit_opens:
  assumes "\<not> window_open store p now"
  shows "checkRateLimit store now p limit =
     (\<lparr> rl_allowed = True, remaining = limit - 1, resetIn = RATE_LIMIT_WINDOW_MS \<rparr>,
      store(''rate:'' @ p := Some \<lparr> count = 1, resetAt = now + RATE_LIMIT_WINDOW_MS \<rparr>))"
  using assms by (auto simp: checkRateLimit_def window_open_def Let_def split: option.splits)

lemma checkRateLimit_counts:
  assumes "store (''rate:'' @ p) = Some current" and "now \<le> resetAt current"
  shows "checkRateLimit store now p limit =
     (\<lparr> rl_allowed = (count current + 1 \<le> limit),
        remaining = max 0 (limit - (count current + 1)),
        resetIn = resetAt current - now \<rparr>,
      store(''rate:'' @ p := Some (current\<lparr> count := count current + 1 \<rparr>)))"
  using assms by (simp add: checkRateLimit_def Let_def)

lemma requests_in_window:
  assumes "store (''rate:'' @ p) = Some current"
    and "list_all (\<lambda>t. t \<le> resetAt current) ts"
  shows "fst (requests store p limit ts)
           = map (\<lambda>i. count current + 1 + int i \<le> limit) [0..<length ts]
       \<and> snd (requests store p limit ts)
           = store(''rate:'' @ p := Some (current\<lparr> count := count current + int (length ts) \<rparr>))"
  using assms
proof (induction ts arbitrary: store current)
  case Nil
  then show ?case by auto
next
  case (Cons t ts)
  let ?next = "current\<lparr> count := count current + 1 \<rparr>"
  let ?store = "store(''rate:'' @ p := Some ?next)"
  have step: "checkRateLimit store t p limit =
     (\<lparr> rl_allowed = (count current + 1 \<le> limit),
        remaining = max 0 (limit - (count current + 1)),
        resetIn = resetAt current - t \<rparr>, ?store)"
    using Cons.prems by (intro checkRateLimit_counts) auto
  have "?store (''rate:'' @ p) = Some ?next" by simp
  moreover have "list_all (\<lambda>t. t \<le> resetAt ?next) ts" using Cons.prems by simp
  ultimately have ih: "fst (requests ?store p limit ts)
           = map (\<lambda>i. count ?next + 1 + int i \<le> limit) [0..<length ts]
       \<and> snd (requests ?store p limit ts)
           = ?store(''rate:'' @ p := Some (?next\<lparr> count := count ?next + int (length ts) \<rparr>))"
    by (rule Cons.IH)
  have "map (\<lambda>i. count current + 1 + int i \<le> limit) [0..<length (t # ts)]
      = (count current + 1 \<le> limit) # map (\<lambda>i. count ?next + 1 + int i \<le> limit) [0..<length ts]"
    by (simp add: map_upt_Suc add.assoc del: upt_Suc)
  then show ?case using step ih
    by (simp add: split_beta add.assoc del: upt_Suc)
qed

lemma other_principal_untouched:
  assumes "q \<noteq> p"
  shows "snd (checkRateLimit store now p limit) (''rate:'' @ q) = store (''rate:'' @ q)"
  using assms by (simp add: checkRateLimit_def Let_def split: option.splits)

text \<open>
  Claim C9, for limits of at least 1. A principal without an open window asks at \<open>t0\<close> and
  then at times within the window that this opens. The first request is allowed and sets
  the count to 1; every later one is allowed exactly when its number in the window, which
  is the count, is at most the limit, so the request number limit + 1 and all after it are
  refused; and the first request after the window has elapsed is allowed again, with the
  count back at 1. Whatever the limit, the first request of a window is allowed.
\<close>

theorem fixed_window_counter:
  assumes fresh: "\<not> window_open store p t0"
    and window: "list_all (\<lambda>t. t \<le> t0 + RATE_LIMIT_WINDOW_MS) ts"
    and later: "t0 + RATE_LIMIT_WINDOW_MS < t'"
  shows "fst (requests store p limit (t0 # ts))
           = True # map (\<lambda>i. int i + 2 \<le> limit) [0..<length ts]
    \<and> (1 \<le> limit \<longrightarrow>
          (\<forall>k \<le> length ts. fst (requests store p limit (t0 # ts)) ! k = (int k + 1 \<le> limit)))
    \<and> snd (requests store p limit (t0 # ts)) (''rate:'' @ p)
           = Some \<lparr> count = 1 + int (length ts), resetAt = t0 + RATE_LIMIT_WINDOW_MS \<rparr>
    \<and> checkRateLimit (snd (requests store p limit (t0 # ts))) t' p limit
           = (\<lparr> rl_allowed = True, remaining = limit - 1, resetIn = RATE_LIMIT_WINDOW_MS \<rparr>,
              (snd (requests store p limit (t0 # ts)))
                (''rate:'' @ p := Some \<lparr> count = 1, resetAt = t' + RATE_LIMIT_WINDOW_MS \<rparr>))"
proof -
  let ?first = "\<lparr> count = 1, resetAt = t0 + RATE_LIMIT_WINDOW_MS \<rparr>"
  let ?store = "store(''rate:'' @ p := Some ?first)"
  have opened: "checkRateLimit store t0 p limit =
     (\<lparr> rl_allowed = True, remaining = limit - 1, resetIn = RATE_LIMIT_WINDOW_MS \<rparr>, ?store)"
    using fresh by (rule checkRateLimit_opens)
  have "?store (''rate:'' @ p) = Some ?first" by simp
  moreover have "list_all (\<lambda>t. t \<le> resetAt ?first) ts" using window by simp
  ultimately have rest: "fst (requests ?store p limit ts)
           = map (\<lambda>i. count ?first + 1 + int i \<le> limit) [0..<length ts]
       \<and> snd (requests ?store p limit ts)
           = ?store(''rate:'' @ p := Some (?first\<lparr> count := count ?first + int (length ts) \<rparr>))"
    by (rule requests_in_window)
  have answers: "fst (requests store p limit (t0 # ts))
           = True # map (\<lambda>i. int i + 2 \<le> limit) [0..<length ts]"
    using opened rest by (simp add: split_beta add.commute add.left_commute)
  have left: "snd (requests store p limit (t0 # ts))
           = ?store(''rate:'' @ p := Some \<lparr> count = 1 + int (length ts),
                                              resetAt = t0 + RATE_LIMIT_WINDOW_MS \<rparr>)"
    using opened rest by (simp add: split_beta)
  have nth: "fst (requests store p limit (t0 # ts)) ! k = (int k + 1 \<le> limit)"
    if "1 \<le> limit" "k \<le> length ts" for k
  proof (cases k)
    case 0
    then show ?thesis using that answers by simp
  next
    case (Suc j)
    then have "j < length ts" using that by simp
    then show ?thesis using answers Suc by (simp add: add.commute add.left_commute)
  qed
  have "\<not> window_open (snd (requests store p limit (t0 # ts))) p t'"
    using later unfolding window_open_def left by simp
  then have again: "checkRateLimit (snd (requests store p limit (t0 # ts))) t' p limit
           = (\<lparr> rl_allowed = True, remaining = limit - 1, resetIn = RATE_LIMIT_WINDOW_MS \<rparr>,
              (snd (requests store p limit (t0 # ts)))
                (''rate:'' @ p := Some \<lparr> count = 1, resetAt = t' + RATE_LIMIT_WINDOW_MS \<rparr>))"
    by (rule checkRateLimit_opens)
  have entry: "snd (requests store p limit (t0 # ts)) (''rate:'' @ p)
           = Some \<lparr> count = 1 + int (length ts), resetAt = t0 + RATE_LIMIT_WINDOW_MS \<rparr>"
    unfolding left by simp
  from nth have nth': "1 \<le> limit \<longrightarrow>
      (\<forall>k \<le> length ts. fst (requests store p limit (t0 # ts)) ! k = (int k + 1 \<le> limit))"
    by blast
  from answers nth' entry again show ?thesis by (intro conjI)
qed

theorem fixed_window_counter_witness:
  "\<not> window_open (\<lambda>k. None) ''auditor-1'' 1000
   \<and> list_all (\<lambda>t. t \<le> 1000 + RATE_LIMIT_WINDOW_MS) [1001, 2000, 61000, 61000]
   \<and> fst (requests (\<lambda>k. None) ''auditor-1'' 3 [1000, 1001, 2000, 61000, 61000])
       = [True, True, True, False, False]
   \<and> fst (requests (\<lambda>k. None) ''auditor-1'' 3 [1000, 1001, 2000, 61000, 61000]) ! 2
   \<and> \<not> fst (requests (\<lambda>k. None) ''auditor-1'' 3 [1000, 1001, 2000, 61000, 61000]) ! 3
   \<and> snd (requests (\<lambda>k. None) ''auditor-1'' 3 [1000, 1001, 2000, 61000, 61000]) ''rate:auditor-1''
       = Some \<lparr> count = 5, resetAt = 61000 \<rparr>
   \<and> rl_allowed (fst (checkRateLimit
         (snd (requests (\<lambda>k. None) ''auditor-1'' 3 [1000, 1001, 2000, 61000, 61000]))
         61001 ''auditor-1'' 3))"
proof -
  let ?answers = "fst (requests (\<lambda>k. None) ''auditor-1'' 3 [1000, 1001, 2000, 61000, 61000])"
  have fresh: "\<not> window_open (\<lambda>k. None) ''auditor-1'' 1000"
    by (simp add: window_open_def)
  have window: "list_all (\<lambda>t. t \<le> 1000 + RATE_LIMIT_WINDOW_MS) [1001, 2000, 61000, 61000]"
    by (simp add: RATE_LIMIT_WINDOW_MS_def)
  have later: "1000 + RATE_LIMIT_WINDOW_MS < 61001"
    by (simp add: RATE_LIMIT_WINDOW_MS_def)
  have upt4: "[0..<4] = [0, 1, 2, 3]" by (simp add: upt_rec)
  note counter = fixed_window_counter[OF fresh window later, of 3]
  from counter
  have "(1::int) \<le> 3 \<longrightarrow> (\<forall>k \<le> length [1001, 2000, 61000, 61000 :: int].
      ?answers ! k = (int k + 1 \<le> 3))"
    by blast
  hence nth: "\<And>k. k \<le> 4 \<Longrightarrow> ?answers ! k = (int k + 1 \<le> 3)"
    by (simp del: requests.simps)
  from nth[of 2] have third: "?answers ! 2"
    by (simp del: requests.simps)
  from nth[of 3] have fourth: "\<not> ?answers ! 3"
    by (simp del: requests.simps)
  from counter fresh window upt4
  have run: "?answers = [True, True, True, False, False]
   \<and> snd (requests (\<lambda>k. None) ''auditor-1'' 3 [1000, 1001, 2000, 61000, 61000]) ''rate:auditor-1''
       = Some \<lparr> count = 5, resetAt = 61000 \<rparr>
   \<and> rl_allowed (fst (checkRateLimit
         (snd (requests (\<lambda>k. None) ''auditor-1'' 3 [1000, 1001, 2000, 61000, 61000]))
         61001 ''auditor-1'' 3))"
    by (simp add: RATE_LIMIT_WINDOW_MS_def)
  from fresh window run third fourth show ?thesis by blast
qed

text \<open>
  Claim C9 as stated fails for the limit 0: the request number 0 + 1 of the window is
  allowed.
\<close>

theorem zero_limit_first_request_allowed:
  "fst (requests (\<lambda>k. None) ''auditor-1'' 0 [1000]) ! nat 0 = True
   \<and> rl_allowed (fst (checkRateLimit (\<lambda>k. None) 1000 ''auditor-1'' 0))"
  by (simp add: checkRateLimit_def Let_def)

section \<open>Single use of a credential\<close>

lemma validate_fresh:
  assumes "t1 < t0 + ttl"
  shows "validate (issue store tok cid judge t0 ttl) t1 tok =
     (Some cid, (issue store tok cid judge t0 ttl)
        (tok := Some \<lparr> token = tok, caseId = cid, issuedTo = judge, issuedAt = t0,
                         expiresAt = t0 + ttl, usedAt = Some t1 \<rparr>))"
  using assms by (simp add: validate_def issue_def)

lemma validate_used:
  assumes "store tok = Some c" and "usedAt c = Some u"
  shows "validate store now tok = (None, store)"
  using assms by (simp add: validate_def)

lemma validate_expired:
  assumes "store tok = Some c" and "expiresAt c \<le> now"
  shows "validate store now tok = (None, store)"
  using assms by (simp add: validate_def)

lemma validate_keeps_used:
  assumes "store tok = Some c" and "usedAt c = Some u"
  shows "snd (validate store now k) tok = Some c"
  using assms by (auto simp: validate_def split: option.splits)

lemma validations_keep_used:
  assumes "store tok = Some c" and "usedAt c = Some u"
  shows "snd (validations store calls) tok = Some c
       \<and> successes tok calls (fst (validations store calls)) = 0"
  using assms
proof (induction calls arbitrary: store)
  case Nil
  then show ?case by simp
next
  case (Cons call calls)
  obtain now k where call: "call = (now, k)" by (cases call)
  have kept: "snd (validate store now k) tok = Some c"
    using Cons.prems by (rule validate_keeps_used)
  have none: "k = tok \<Longrightarrow> fst (validate store now k) = None"
    using Cons.prems validate_used[of store tok c u now] by simp
  from Cons.IH[of "snd (validate store now k)", OF kept Cons.prems(2)] none show ?case
    by (auto simp: call split_beta)
qed

lemma validate_success_marks:
  assumes "fst (validate store now tok) = Some cid"
  shows "\<exists>c. snd (validate store now tok) tok = Some c \<and> usedAt c = Some now"
  using assms by (auto simp: validate_def split: option.splits if_splits)

lemma successes_at_most_once:
  "successes tok calls (fst (validations store calls)) \<le> 1"
proof (induction calls arbitrary: store)
  case Nil
  then show ?case by simp
next
  case (Cons call calls)
  obtain now k where call: "call = (now, k)" by (cases call)
  show ?case
  proof (cases "k = tok \<and> fst (validate store now k) \<noteq> None")
    case True
    then obtain cid where "fst (validate store now tok) = Some cid" by auto
    then obtain c where "snd (validate store now tok) tok = Some c" "usedAt c = Some now"
      using validate_success_marks by blast
    then have "successes tok calls (fst (validations (snd (validate store now tok)) calls)) = 0"
      using validations_keep_used by blast
    then show ?thesis using True by (simp add: call split_beta)
  next
    case False
    then show ?thesis using Cons.IH[of "snd (validate store now k)"]
      by (auto simp: call split_beta)
  qed
qed

text \<open>
  Claim C3, on the service as the specification describes it. The first validation of a
  freshly issued token before its expiry returns the bound case, and a second validation of
  it returns nothing; a validation at or after the expiry returns nothing, used or not; in
  any sequence of validations on any store a token is answered with a case at most once;
  and a credential whose \<open>usedAt\<close> is set is never changed again.
\<close>

theorem credential_single_use:
  "(t1 < t0 + ttl \<longrightarrow>
       fst (validate (issue store tok cid judge t0 ttl) t1 tok) = Some cid
     \<and> fst (validate (snd (validate (issue store tok cid judge t0 ttl) t1 tok)) t2 tok) = None)
   \<and> (t0 + ttl \<le> t3 \<longrightarrow> fst (validate (issue store tok cid judge t0 ttl) t3 tok) = None)
   \<and> successes tok calls (fst (validations held calls)) \<le> 1
   \<and> (held tok = Some c \<and> usedAt c = Some u \<longrightarrow>
        snd (validations held calls) tok = Some c)"
proof -
  have first: "fst (validate (issue store tok cid judge t0 ttl) t1 tok) = Some cid
     \<and> fst (validate (snd (validate (issue store tok cid judge t0 ttl) t1 tok)) t2 tok) = None"
    if "t1 < t0 + ttl"
    using validate_fresh[OF that, of store tok cid judge] by (simp add: validate_def)
  have expired: "fst (validate (issue store tok cid judge t0 ttl) t3 tok) = None"
    if "t0 + ttl \<le> t3"
    using that by (simp add: validate_def issue_def)
  from first expired successes_at_most_once[of tok calls held] validations_keep_used[of held tok c u calls]
  show ?thesis by blast
qed

theorem credential_single_use_witness:
  "fst (validate (issue (\<lambda>k. None) ''tok-1'' ''case-7'' ''judge-1'' 100 900) 500 ''tok-1'') = Some ''case-7''
   \<and> fst (validate (snd (validate (issue (\<lambda>k. None) ''tok-1'' ''case-7'' ''judge-1'' 100 900) 500 ''tok-1''))
        600 ''tok-1'') = None
   \<and> fst (validate (issue (\<lambda>k. None) ''tok-1'' ''case-7'' ''judge-1'' 100 900) 1000 ''tok-1'') = None
   \<and> fst (validations (issue (\<lambda>k. None) ''tok-1'' ''case-7'' ''judge-1'' 100 900)
        [(500, ''tok-1''), (600, ''tok-1''), (700, ''tok-1'')]) = [Some ''case-7'', None, None]
   \<and> successes ''tok-1'' [(500, ''tok-1''), (600, ''tok-1''), (700, ''tok-1'')]
        (fst (validations (issue (\<lambda>k. None) ''tok-1'' ''case-7'' ''judge-1'' 100 900)
           [(500, ''tok-1''), (600, ''tok-1''), (700, ''tok-1'')])) \<le> 1
   \<and> snd (validations
          (snd (validate (issue (\<lambda>k. None) ''tok-1'' ''case-7'' ''judge-1'' 100 900) 500 ''tok-1''))
          [(600, ''tok-1''), (700, ''tok-1'')]) ''tok-1''
       = Some \<lparr> token = ''tok-1'', caseId = ''case-7'', issuedTo = ''judge-1'', issuedAt = 100,
                 expiresAt = 1000, usedAt = Some 500 \<rparr>"
proof -
  let ?issued = "issue (\<lambda>k. None) ''tok-1'' ''case-7'' ''judge-1'' 100 900"
  let ?used = "snd (validate ?issued 500 ''tok-1'')"
  let ?c = "\<lparr> token = ''tok-1'', caseId = ''case-7'', issuedTo = ''judge-1'', issuedAt = 100,
                 expiresAt = 1000, usedAt = Some 500 \<rparr>"
  have a: "(500::int) < 100 + 900" and b: "(100::int) + 900 \<le> 1000" by simp_all
  have held: "?used ''tok-1'' = Some ?c \<and> usedAt ?c = Some 500"
    by (simp add: validate_def issue_def)
  note single = credential_single_use[of 500 100 900 "\<lambda>k. None" "''tok-1''" "''case-7''" "''judge-1''"
      600 1000 "[(500, ''tok-1''), (600, ''tok-1''), (700, ''tok-1'')]" ?issued]
  note kept = credential_single_use[of 500 100 900 "\<lambda>k. None" "''tok-1''" "''case-7''" "''judge-1''"
      600 1000 "[(600, ''tok-1''), (700, ''tok-1'')]" ?used ?c 500]
  from single a b
  have once: "fst (validate ?issued 500 ''tok-1'') = Some ''case-7''
   \<and> fst (validate ?used 600 ''tok-1'') = None
   \<and> fst (validate ?issued 1000 ''tok-1'') = None
   \<and> successes ''tok-1'' [(500, ''tok-1''), (600, ''tok-1''), (700, ''tok-1'')]
        (fst (validations ?issued [(500, ''tok-1''), (600, ''tok-1''), (700, ''tok-1'')])) \<le> 1"
    by blast
  from kept held
  have stays: "snd (validations ?used [(600, ''tok-1''), (700, ''tok-1'')]) ''tok-1'' = Some ?c"
    by blast
  have run: "fst (validations ?issued [(500, ''tok-1''), (600, ''tok-1''), (700, ''tok-1'')])
      = [Some ''case-7'', None, None]"
    by (simp add: validate_def issue_def)
  from once stays run show ?thesis by blast
qed

section \<open>The anonymized view\<close>

text \<open>
  The hash of a row is a function of its subject alone; the view reads neither the resource
  identifier nor the metadata, and reads the subject only through the hash; and the
  sanitized reason has at most 103 characters.
\<close>

lemma same_subject_same_hash:
  assumes "pel_user_id a = pel_user_id b"
  shows "user_hash (audit_logs_sanitized md5 a) = user_hash (audit_logs_sanitized md5 b)"
  using assms by (simp add: audit_logs_sanitized_def)

lemma view_drops_resource_id:
  "audit_logs_sanitized md5 (pel\<lparr> pel_resource_id := rid, pel_metadata := md \<rparr>)
     = audit_logs_sanitized md5 pel"
  by (simp add: audit_logs_sanitized_def)

lemma view_reads_subject_through_hash:
  assumes "take 8 (md5 uid) = take 8 (md5 (pel_user_id pel))"
  shows "audit_logs_sanitized md5 (pel\<lparr> pel_user_id := uid \<rparr>) = audit_logs_sanitized md5 pel"
  using assms by (simp add: audit_logs_sanitized_def)

lemma reason_sanitized_bounded:
  assumes "sanitize_reason r = Some s"
  shows "length s \<le> 103"
  using assms by (auto simp: sanitize_reason_def split: option.splits if_splits)

text \<open>
  The matcher reads exactly 36 characters, none of them a dot, so cutting a text and
  appending three dots cannot complete a match: a sanitized reason never contains text of
  the shape of a lower-case UUID.
\<close>

lemma hex_run_reads:
  "hex_run n s = Some r \<longleftrightarrow> n \<le> length s \<and> list_all lower_hex (take n s) \<and> r = drop n s"
  by (induction n s rule: hex_run.induct) auto

lemma dash_reads:
  "dash s = Some r \<longleftrightarrow> 1 \<le> length s \<and> take 1 s = ''-'' \<and> r = drop 1 s"
  by (cases s) auto

lemma bind_reads:
  assumes f: "\<And>s r. f s = Some r \<longleftrightarrow> n \<le> length s \<and> A (take n s) \<and> r = drop n s"
    and g: "\<And>s r. g s = Some r \<longleftrightarrow> m \<le> length s \<and> B (take m s) \<and> r = drop m s"
  shows "Option.bind (f s) g = Some r \<longleftrightarrow>
     n + m \<le> length s \<and> (\<lambda>v. A (take n v) \<and> B (drop n v)) (take (n + m) s)
       \<and> r = drop (n + m) s"
proof (cases "f s")
  case None
  then show ?thesis using f[of s "drop n s"] by (auto simp: min_def)
next
  case (Some t)
  then have t: "n \<le> length s" "A (take n s)" "t = drop n s" using f[of s t] by auto
  have "take m (drop n s) = drop n (take (n + m) s)" by (simp add: drop_take add.commute)
  then show ?thesis using Some t g[of t r] by (auto simp: min_def add.commute)
qed

lemma uuid_here_shape:
  "uuid_here s \<longleftrightarrow>
     36 \<le> length s
     \<and> list_all lower_hex (take 8 s) \<and> drop 8 (take 9 s) = ''-''
     \<and> list_all lower_hex (drop 9 (take 13 s)) \<and> drop 13 (take 14 s) = ''-''
     \<and> list_all lower_hex (drop 14 (take 18 s)) \<and> drop 18 (take 19 s) = ''-''
     \<and> list_all lower_hex (drop 19 (take 23 s)) \<and> drop 23 (take 24 s) = ''-''
     \<and> list_all lower_hex (drop 24 (take 36 s))"
proof -
  note b1 = bind_reads[OF hex_run_reads[of 8] dash_reads]
  note b2 = bind_reads[OF b1 hex_run_reads[of 4]]
  note b3 = bind_reads[OF b2 dash_reads]
  note b4 = bind_reads[OF b3 hex_run_reads[of 4]]
  note b5 = bind_reads[OF b4 dash_reads]
  note b6 = bind_reads[OF b5 hex_run_reads[of 4]]
  note b7 = bind_reads[OF b6 dash_reads]
  note b8 = bind_reads[OF b7 hex_run_reads[of 12]]
  have full: "uuid_here t \<longleftrightarrow> (\<exists>r. Option.bind (Option.bind (Option.bind (Option.bind (Option.bind
        (Option.bind (Option.bind (Option.bind (hex_run 8 t) dash) (hex_run 4)) dash) (hex_run 4))
        dash) (hex_run 4)) dash) (hex_run 12) = Some r)" for t
    by (simp add: uuid_here_def)
  show ?thesis unfolding full b8 by (auto simp: min_def)
qed

lemma set_take_split:
  assumes "i \<le> j"
  shows "set (take j s) = set (take i s) \<union> set (drop i (take j s))"
proof -
  have "set (take i (take j s) @ drop i (take j s)) = set (take j s)"
    by (simp only: append_take_drop_id)
  then have "set (take i (take j s)) \<union> set (drop i (take j s)) = set (take j s)"
    by (simp only: set_append)
  moreover have "take i (take j s) = take i s" using assms by (simp add: min_def)
  ultimately show ?thesis by simp
qed

lemma dot_not_hex: "\<not> lower_hex CHR ''.''"
  by (simp add: lower_hex_def)

lemma hex_avoids_dot: "list_all lower_hex u \<Longrightarrow> CHR ''.'' \<notin> set u"
  using dot_not_hex by (auto simp: list_all_iff)


lemma uuid_here_reads: "uuid_here s \<longleftrightarrow> 36 \<le> length s \<and> uuid_here (take 36 s)"
proof (cases "36 \<le> length s")
  case True
  then show ?thesis
    unfolding uuid_here_shape[of s] uuid_here_shape[of "take 36 s"] by simp
next
  case False
  then show ?thesis unfolding uuid_here_shape[of s] by simp
qed

lemma uuid_here_avoids_dot:
  assumes "uuid_here s"
  shows "CHR ''.'' \<notin> set (take 36 s)"
proof -
  have "set (take 36 s) = set (take 8 s) \<union> set (drop 8 (take 9 s))
      \<union> set (drop 9 (take 13 s)) \<union> set (drop 13 (take 14 s))
      \<union> set (drop 14 (take 18 s)) \<union> set (drop 18 (take 19 s))
      \<union> set (drop 19 (take 23 s)) \<union> set (drop 23 (take 24 s))
      \<union> set (drop 24 (take 36 s))"
    using set_take_split[of 24 36 s] set_take_split[of 23 24 s] set_take_split[of 19 23 s]
      set_take_split[of 18 19 s] set_take_split[of 14 18 s] set_take_split[of 13 14 s]
      set_take_split[of 9 13 s] set_take_split[of 8 9 s]
    by simp
  moreover from assms have
    "list_all lower_hex (take 8 s)" "drop 8 (take 9 s) = ''-''"
    "list_all lower_hex (drop 9 (take 13 s))" "drop 13 (take 14 s) = ''-''"
    "list_all lower_hex (drop 14 (take 18 s))" "drop 18 (take 19 s) = ''-''"
    "list_all lower_hex (drop 19 (take 23 s))" "drop 23 (take 24 s) = ''-''"
    "list_all lower_hex (drop 24 (take 36 s))"
    unfolding uuid_here_shape by blast+
  ultimately show ?thesis using hex_avoids_dot by simp
qed


lemma contains_uuid_iff: "contains_uuid s \<longleftrightarrow> (\<exists>a t. s = a @ t \<and> uuid_here t)"
proof (induction s)
  case Nil
  then show ?case by simp
next
  case (Cons c cs)
  show ?case
  proof
    assume "contains_uuid (c # cs)"
    then consider "uuid_here (c # cs)" | "contains_uuid cs" by auto
    then show "\<exists>a t. c # cs = a @ t \<and> uuid_here t"
    proof cases
      case 1
      then have "c # cs = [] @ (c # cs) \<and> uuid_here (c # cs)" by simp
      then show ?thesis by blast
    next
      case 2
      then obtain a t where "cs = a @ t" "uuid_here t" using Cons.IH by blast
      then have "c # cs = (c # a) @ t \<and> uuid_here t" by simp
      then show ?thesis by blast
    qed
  next
    assume "\<exists>a t. c # cs = a @ t \<and> uuid_here t"
    then obtain a t where at: "c # cs = a @ t" "uuid_here t" by blast
    show "contains_uuid (c # cs)"
    proof (cases a)
      case Nil
      with at have "uuid_here (c # cs)" by simp
      then show ?thesis by simp
    next
      case (Cons x a')
      with at have "cs = a' @ t" by simp
      with at(2) have "contains_uuid cs" using Cons.IH by blast
      then show ?thesis by simp
    qed
  qed
qed

lemma short_text_has_no_uuid:
  assumes "length s < 36"
  shows "\<not> contains_uuid s"
proof
  assume "contains_uuid s"
  then obtain a t where "s = a @ t" "uuid_here t" unfolding contains_uuid_iff by blast
  then have "36 \<le> length s" using uuid_here_reads[of t] by simp
  with assms show False by simp
qed

lemma truncation_adds_no_uuid:
  assumes "contains_uuid (take k s @ ''...'')"
  shows "contains_uuid s"
proof -
  from assms obtain a t where at: "take k s @ ''...'' = a @ t" and ut: "uuid_here t"
    unfolding contains_uuid_iff by blast
  from ut have len: "36 \<le> length t" and nodot: "CHR ''.'' \<notin> set (take 36 t)"
    using uuid_here_reads[of t] uuid_here_avoids_dot[of t] by auto
  from at obtain us where d: "(take k s = a @ us \<and> us @ ''...'' = t)
      \<or> (take k s @ us = a \<and> ''...'' = us @ t)"
    unfolding append_eq_append_conv2 by blast
  have "''...'' \<noteq> us @ t"
  proof
    assume "''...'' = us @ t"
    then have "length (us @ t) = length ''...''" by simp
    with len show False by simp
  qed
  with d have split: "take k s = a @ us" "us @ ''...'' = t" by auto
  have long: "36 \<le> length us"
  proof (rule ccontr)
    assume "\<not> 36 \<le> length us"
    then have short: "length us < 36" by simp
    have "t ! length us = CHR ''.''" using split(2) by auto
    moreover have "take 36 t ! length us = t ! length us" using short by simp
    moreover have "length us < length (take 36 t)" using short len by simp
    ultimately have "CHR ''.'' \<in> set (take 36 t)" by (metis nth_mem)
    with nodot show False by simp
  qed
  then have "take 36 t = take 36 (us @ drop k s)" using split(2) by auto
  with ut long have "uuid_here (us @ drop k s)"
    using uuid_here_reads[of t] uuid_here_reads[of "us @ drop k s"] by simp
  moreover have "s = a @ (us @ drop k s)"
    using split(1) by (metis append.assoc append_take_drop_id)
  ultimately show ?thesis unfolding contains_uuid_iff by blast
qed

lemma reason_sanitized_has_no_uuid:
  assumes "sanitize_reason r = Some s"
  shows "\<not> contains_uuid s"
proof (cases r)
  case None
  with assms show ?thesis by (simp add: sanitize_reason_def)
next
  case (Some msg)
  show ?thesis
  proof (cases "contains_uuid msg")
    case True
    with assms Some have "s = ''Access decision logged''" by (simp add: sanitize_reason_def)
    then show ?thesis by (intro short_text_has_no_uuid) simp
  next
    case False
    show ?thesis
    proof (cases "100 < length msg")
      case True
      with assms Some False have "s = take 100 msg @ ''...''" by (simp add: sanitize_reason_def)
      then show ?thesis using False truncation_adds_no_uuid by blast
    next
      case short: False
      with assms Some False have "s = msg" by (simp add: sanitize_reason_def)
      then show ?thesis using False by simp
    qed
  qed
qed

text \<open>
  The scenario of the specification: the secretary who holds only \<^verbatim>\<open>case.create\<close> asks
  for \<^verbatim>\<open>case.edit\<close> on a case; the stored denial appears in the view with the hash of the
  subject, the reason unchanged, and no resource identifier.
\<close>

lemma denial_is_shown_anonymized:
  "map (audit_logs_sanitized md5 \<circ> stored_row rid ts)
     (snd (checkPermission (Some (createClient demo_db 0 Healthy Healthy Healthy))
        ((request ''secretary-1'' ''case.edit'' ''cases'' None)\<lparr> resourceId := Some ''case-42'' \<rparr>)))
   = [\<lparr> san_id = rid, user_hash = take 8 (md5 ''secretary-1''), san_action = ''case.edit'',
        san_resource_type = ''cases'', san_result = ''deny'',
        reason_sanitized = Some ''Missing required attribute: case.edit.metadata'',
        san_timestamp = ts, hour_of_day = (ts div 3600) mod 24,
        day_of_week = (ts div 86400 + 4) mod 7 \<rparr>]"
proof -
  let ?ctx = "(request ''secretary-1'' ''case.edit'' ''cases'' None)\<lparr> resourceId := Some ''case-42'' \<rparr>"
  have req: "mapActionToAttribute ''case.edit'' = Own ''case.edit.metadata''"
    by (simp add: mapActionToAttribute_def js_get_def mapping_def)
  have attrs: "active_attributes demo_db 0 ''secretary-1'' =
      [\<lparr> attr_id = ''a-create'', name = ''case.create'', category = ''permission'',
          level = 1, description = Some ''Crear casos'' \<rparr>]"
    by (simp add: active_attributes_def active_grants_def is_active_def
          embed_attribute_def demo_db_def demo_catalog_def List.map_filter_simps)
  have "\<not> primary_check_passes (active_attributes demo_db 0 (userId ?ctx)) (action ?ctx)"
    by (simp add: request_def attrs primary_check_passes_def req)
  from try_missing[OF this, of Healthy Healthy]
  have "snd (checkPermission (Some (createClient demo_db 0 Healthy Healthy Healthy)) ?ctx)
      = [decision ?ctx False ''Missing required attribute: case.edit.metadata'']"
    by (simp add: checkPermission_def request_def req js_to_string_def)
  moreover have "\<not> contains_uuid ''Missing required attribute: case.edit.metadata''"
    by code_simp
  ultimately show ?thesis
    by (simp add: audit_logs_sanitized_def stored_row_def decision_def request_def
          sanitize_reason_def)
qed

end
